theory Spec2Isabelle
  imports Main "HOL-Library.Sublist" "HOL-Library.AList"
begin

section \<open>Exceptions and text\<close>

text \<open>
  The Python exceptions that the modelled code can meet. A function of the source that
  may raise returns \<open>exn + 'a\<close>, with \<open>Inl\<close> for the exception.

  Text is a list of 8-bit characters. The model reads a Python \<open>str\<close> as its
  ASCII text: the regular expression classes \<open>\s\<close> and \<open>\d\<close> are the ASCII ones
  (with the four separators 0x1C..0x1F that Python counts as white space), and a percent
  escape decodes to one character. Paths follow the POSIX rules of \<open>os.path\<close>.
\<close>

datatype exn =
    ValueError
  | AttributeError
  | TypeError
  | UnicodeDecodeError
  | FileNotFoundError
  | FileExistsError
  | NotADirectoryError
  | IsADirectoryError
  | PermissionError
  | RequestException

text \<open>\<open>str.split(sep)\<close> for a one-character separator: never the empty list.\<close>

fun split_char :: "char \<Rightarrow> string \<Rightarrow> string list" where
  "split_char sep [] = [[]]"
| "split_char sep (c # cs) =
     (if c = sep then [] # split_char sep cs
      else (case split_char sep cs of
              w # ws \<Rightarrow> (c # w) # ws
            | [] \<Rightarrow> [[c]]))"

text \<open>\<open>str.replace(old, new)\<close>: every occurrence, left to right, without overlap.\<close>

function replace_all :: "string \<Rightarrow> string \<Rightarrow> string \<Rightarrow> string" where
  "replace_all old new [] = []"
| "replace_all old new (c # cs) =
     (if old \<noteq> [] \<and> prefix old (c # cs)
      then new @ replace_all old new (drop (length old) (c # cs))
      else c # replace_all old new cs)"
  by pat_completeness auto

termination
  by (relation "measure (\<lambda>(old, new, s). length s)") auto

text \<open>\<open>str.rfind(c)\<close>: the last index of \<open>c\<close>, or \<open>-1\<close>.\<close>

definition rfind_char :: "char \<Rightarrow> string \<Rightarrow> int" where
  "rfind_char c s =
     (case filter (\<lambda>i. s ! i = c) (rev [0..<length s]) of
        [] \<Rightarrow> -1
      | i # _ \<Rightarrow> int i)"

text \<open>
  \<open>os.path.splitext\<close> (\<open>genericpath._splitext\<close> with separator \<open>/\<close>): the extension
  starts at the last dot after the last separator, unless only dots come before it.
\<close>

definition splitext :: "string \<Rightarrow> string \<times> string" where
  "splitext p =
     (let sepIndex = rfind_char CHR ''/'' p;
          dotIndex = rfind_char CHR ''.'' p
      in if dotIndex > sepIndex
            \<and> list_ex (\<lambda>i. p ! i \<noteq> CHR ''.'') [nat (sepIndex + 1)..<nat dotIndex]
         then (take (nat dotIndex) p, drop (nat dotIndex) p)
         else (p, []))"

subsection \<open>\<open>urllib.parse.unquote\<close>\<close>

definition is_hexdigit :: "char \<Rightarrow> bool" where
  "is_hexdigit c = (c \<in> set ''0123456789ABCDEFabcdef'')"

definition hexval :: "char \<Rightarrow> nat" where
  "hexval c =
     (let n = (of_char c :: nat)
      in if n \<le> 57 then n - 48 else if n \<le> 70 then n - 55 else n - 87)"

text \<open>
  A \<open>%\<close> followed by two hexadecimal digits is the character with that code; any other
  \<open>%\<close> stays as it is.
\<close>

fun unquote :: "string \<Rightarrow> string" where
  "unquote (c # a # b # cs) =
     (if c = CHR ''%'' \<and> is_hexdigit a \<and> is_hexdigit b
      then char_of (16 * hexval a + hexval b) # unquote cs
      else c # unquote (a # b # cs))"
| "unquote (c # cs) = c # unquote cs"
| "unquote [] = []"

subsection \<open>The pattern \<open>DataSet\s*(\d+)\<close>\<close>

definition is_space :: "char \<Rightarrow> bool" where
  "is_space c = (let n = (of_char c :: nat) in (9 \<le> n \<and> n \<le> 13) \<or> (28 \<le> n \<and> n \<le> 32))"

definition is_digit :: "char \<Rightarrow> bool" where
  "is_digit c = (let n = (of_char c :: nat) in 48 \<le> n \<and> n \<le> 57)"

text \<open>
  A match that starts at the head of the text: the marker, any white space, then the
  longest run of digits, which is group 1. White space and digits are disjoint, so
  the greedy match is the only one.
\<close>

definition ds_match_here :: "string \<Rightarrow> string option" where
  "ds_match_here s =
     (if prefix ''DataSet'' s
      then (let n = takeWhile is_digit (dropWhile is_space (drop 7 s))
            in if n = [] then None else Some n)
      else None)"

text \<open>\<open>re.search\<close>: group 1 of the leftmost match.\<close>

fun ds_search :: "string \<Rightarrow> string option" where
  "ds_search [] = ds_match_here []"
| "ds_search (c # cs) =
     (case ds_match_here (c # cs) of
        Some n \<Rightarrow> Some n
      | None \<Rightarrow> ds_search cs)"

subsection \<open>\<open>urllib.parse.urlparse(url).netloc\<close>\<close>

definition is_alpha :: "char \<Rightarrow> bool" where
  "is_alpha c = (let n = (of_char c :: nat) in (65 \<le> n \<and> n \<le> 90) \<or> (97 \<le> n \<and> n \<le> 122))"

definition is_scheme_char :: "char \<Rightarrow> bool" where
  "is_scheme_char c = (is_alpha c \<or> is_digit c \<or> c \<in> set ''+-.'')"

text \<open>
  \<open>urlsplit\<close> strips leading control characters and spaces, drops tab, CR and LF, cuts
  a scheme (a letter, then scheme characters, up to the first colon), and reads the
  network location after \<open>//\<close> up to the next \<open>/\<close>, \<open>?\<close> or \<open>#\<close>. A location with one
  square bracket and not the other raises \<open>ValueError\<close>. (The checks of what stands
  inside a pair of brackets, and of non-ASCII hosts, differ between Python versions and
  are left out.)
\<close>

definition url_after_scheme :: "string \<Rightarrow> string" where
  "url_after_scheme url =
     (let pre = takeWhile (\<lambda>c. c \<noteq> CHR '':'') url
      in if length pre < length url \<and> pre \<noteq> [] \<and> is_alpha (hd url) \<and> list_all is_scheme_char pre
         then drop (length pre + 1) url
         else url)"

definition urlparse_netloc :: "string \<Rightarrow> exn + string" where
  "urlparse_netloc url0 =
     (let url = filter (\<lambda>c. c \<notin> {CHR 0x09, CHR 0x0D, CHR 0x0A})
                  (dropWhile (\<lambda>c. (of_char c :: nat) \<le> 32) url0);
          rest = url_after_scheme url
      in if take 2 rest = ''//''
         then (let netloc = takeWhile (\<lambda>c. c \<notin> set ''/?#'') (drop 2 rest)
               in if (CHR ''['' \<in> set netloc) \<noteq> (CHR '']'' \<in> set netloc)
                  then Inl ValueError
                  else Inr netloc)
         else Inr [])"

section \<open>Identity of a pair: \<open>parse_url_info\<close>\<close>

definition parse_url_info :: "string \<Rightarrow> exn + (string \<times> string)" where
  "parse_url_info url =
     (let decoded = unquote url
      in case ds_search decoded of
           Some n \<Rightarrow>
             (let dataset = ''DataSet_'' @ n;
                  filename = last (split_char CHR ''/'' decoded);
                  file_id = fst (splitext filename)
              in Inr (dataset, file_id))
         | None \<Rightarrow>
             (case urlparse_netloc url of
                Inl e \<Rightarrow> Inl e
              | Inr netloc \<Rightarrow>
                  (let domain = replace_all ''.'' ''_'' (replace_all ''www.'' [] netloc);
                       filename = last (split_char CHR ''/'' decoded);
                       file_id = fst (splitext filename)
                   in Inr (domain, if file_id = [] then ''unknown'' else file_id))))"

section \<open>The progress file: \<open>load_progress\<close>\<close>

text \<open>
  A JSON document as \<open>json.load\<close> returns it (numbers as integers), and the states of
  the progress file that \<open>load_progress\<close> tells apart: no file; bytes that do not
  decode as text; text that is not JSON; a JSON document.
\<close>

datatype json =
    JNull
  | JBool bool
  | JNum int
  | JStr string
  | JArr "json list"
  | JObj "(string \<times> json) list"

datatype pfile = Missing | Undecodable | NotJson | Doc json

text \<open>Lists and dictionaries are not hashable: \<open>set\<close> raises \<open>TypeError\<close> on them.\<close>

fun hashable :: "json \<Rightarrow> bool" where
  "hashable (JArr xs) = False"
| "hashable (JObj kvs) = False"
| "hashable j = True"

text \<open>
  \<open>set(v)\<close>: the elements of a list, the characters of a string, the keys of a
  dictionary. \<open>True\<close> and \<open>1\<close> (\<open>False\<close> and \<open>0\<close>) are equal and hash alike, so a
  set holds them as one element: \<open>canon\<close> gives the number for both.
\<close>

fun canon :: "json \<Rightarrow> json" where
  "canon (JBool b) = JNum (if b then 1 else 0)"
| "canon j = j"

fun py_set :: "json \<Rightarrow> exn + json set" where
  "py_set (JArr xs) = (if list_all hashable xs then Inr (canon ` set xs) else Inl TypeError)"
| "py_set (JStr s) = Inr ((\<lambda>c. JStr [c]) ` set s)"
| "py_set (JObj kvs) = Inr ((\<lambda>kv. JStr (fst kv)) ` set kvs)"
| "py_set j = Inl TypeError"

text \<open>
  \<open>load_progress\<close>: the handler catches \<open>json.JSONDecodeError\<close> and \<open>KeyError\<close> only.
  \<open>data.get\<close> exists on a dictionary alone (\<open>AttributeError\<close> otherwise); of a key
  written twice \<open>json.load\<close> keeps the last value.
\<close>

definition load_progress :: "pfile \<Rightarrow> exn + json set" where
  "load_progress f =
     (case f of
        Missing \<Rightarrow> Inr {}
      | Undecodable \<Rightarrow> Inl UnicodeDecodeError
      | NotJson \<Rightarrow> Inr {}
      | Doc data \<Rightarrow>
          (case data of
             JObj kvs \<Rightarrow>
               py_set (case map_of (rev kvs) ''completed'' of
                         Some v \<Rightarrow> v
                       | None \<Rightarrow> JArr [])
           | _ \<Rightarrow> Inl AttributeError))"

section \<open>The environment: file system and HTTP transport\<close>

text \<open>
  A path names a node by its text (no resolution of \<open>.\<close>, \<open>..\<close>, doubled or trailing
  separators). \<open>nodes\<close> lists the existing paths in the order a directory listing
  returns them. A path in \<open>locked\<close> can be neither created, written, replaced nor
  deleted (\<open>PermissionError\<close>); a directory in \<open>unlistable\<close> cannot be listed.
  \<open>dir_size\<close> is what \<open>os.path.getsize\<close> reports for a directory.

  The transport answers the \<open>k\<close>-th request of the run (counted from 0) for a URL with
  \<open>respond k url\<close>: \<open>ConnFail\<close> when \<open>session.get\<close> raises a
  \<open>requests.RequestException\<close>; otherwise a status code and the chunks of the body, with
  a flag telling that the stream raises after the last chunk instead of ending.
  \<open>requests\<close> logs the URLs requested, \<open>slept\<close> adds up the back-off delays and
  \<open>offline\<close> lists the files handed to \<open>dehydrate_single_file\<close>. \<open>hist\<close> keeps
  every state the file system went through, newest first, so that a property of all
  intermediate states can be stated.
\<close>

datatype node = File string | Dir

datatype outcome = ConnFail | Resp nat "string list" bool

record world =
  nodes :: "(string \<times> node) list"
  locked :: "string set"
  unlistable :: "string set"
  dir_size :: nat
  respond :: "nat \<Rightarrow> string \<Rightarrow> outcome"
  requests :: "string list"
  slept :: nat
  offline :: "string list"
  hist :: "(string \<times> node) list list"

definition lookup :: "world \<Rightarrow> string \<Rightarrow> node option" where
  "lookup w p = map_of (nodes w) p"

definition path_exists :: "world \<Rightarrow> string \<Rightarrow> bool" where
  "path_exists w p = (lookup w p \<noteq> None)"

definition isdir :: "world \<Rightarrow> string \<Rightarrow> bool" where
  "isdir w p = (lookup w p = Some Dir)"

definition getsize :: "world \<Rightarrow> string \<Rightarrow> exn + nat" where
  "getsize w p =
     (case lookup w p of
        None \<Rightarrow> Inl FileNotFoundError
      | Some (File c) \<Rightarrow> Inr (length c)
      | Some Dir \<Rightarrow> Inr (dir_size w))"

text \<open>Every change of the file system goes through \<open>commit\<close>, which records the new state.\<close>

definition commit :: "(string \<times> node) list \<Rightarrow> world \<Rightarrow> world" where
  "commit ns w = w\<lparr>nodes := ns, hist := ns # hist w\<rparr>"

text \<open>\<open>open(p, "wb")\<close>: creates the file or truncates it.\<close>

definition open_wb :: "world \<Rightarrow> string \<Rightarrow> (exn + unit) \<times> world" where
  "open_wb w p =
     (if p \<in> locked w then (Inl PermissionError, w)
      else if lookup w p = Some Dir then (Inl IsADirectoryError, w)
      else (Inr (), commit (AList.update p (File []) (nodes w)) w))"

text \<open>\<open>f.write(chunk)\<close> on the file opened at \<open>p\<close>.\<close>

definition write_chunk :: "string \<Rightarrow> string \<Rightarrow> world \<Rightarrow> world" where
  "write_chunk p chunk w =
     (case lookup w p of
        Some (File c) \<Rightarrow> commit (AList.update p (File (c @ chunk)) (nodes w)) w
      | _ \<Rightarrow> w)"

definition os_remove :: "world \<Rightarrow> string \<Rightarrow> (exn + unit) \<times> world" where
  "os_remove w p =
     (case lookup w p of
        None \<Rightarrow> (Inl FileNotFoundError, w)
      | Some Dir \<Rightarrow> (Inl IsADirectoryError, w)
      | Some (File c) \<Rightarrow>
          if p \<in> locked w then (Inl PermissionError, w)
          else (Inr (), commit (AList.delete p (nodes w)) w))"

text \<open>
  \<open>os.replace(src, dst)\<close> for a regular file \<open>src\<close>, which is all the source moves:
  \<open>dst\<close> is overwritten unless it is a directory.
\<close>

definition os_replace :: "world \<Rightarrow> string \<Rightarrow> string \<Rightarrow> (exn + unit) \<times> world" where
  "os_replace w src dst =
     (case lookup w src of
        None \<Rightarrow> (Inl FileNotFoundError, w)
      | Some Dir \<Rightarrow> (Inl IsADirectoryError, w)
      | Some (File c) \<Rightarrow>
          if src \<in> locked w \<or> dst \<in> locked w then (Inl PermissionError, w)
          else if lookup w dst = Some Dir then (Inl IsADirectoryError, w)
          else (Inr (), commit (AList.update dst (File c) (AList.delete src (nodes w))) w))"

subsection \<open>Paths\<close>

definition rstrip_slash :: "string \<Rightarrow> string" where
  "rstrip_slash s = rev (dropWhile (\<lambda>c. c = CHR ''/'') (rev s))"

text \<open>\<open>posixpath.split\<close>, \<open>dirname\<close> and \<open>join\<close>.\<close>

definition path_split :: "string \<Rightarrow> string \<times> string" where
  "path_split p =
     (let i = nat (rfind_char CHR ''/'' p + 1);
          head = take i p;
          tail = drop i p
      in (if head \<noteq> [] \<and> \<not> list_all (\<lambda>c. c = CHR ''/'') head then rstrip_slash head else head,
          tail))"

definition dirname :: "string \<Rightarrow> string" where
  "dirname p = fst (path_split p)"

definition path_join :: "string \<Rightarrow> string \<Rightarrow> string" where
  "path_join a b =
     (if prefix ''/'' b then b
      else if a = [] \<or> last a = CHR ''/'' then a @ b
      else a @ ''/'' @ b)"

subsection \<open>\<open>os.makedirs(name, exist_ok=True)\<close>\<close>

text \<open>
  \<open>os.mkdir\<close>: fails on the empty path, on a path that exists, below a regular file
  and on a locked path. (That the parent exists is not checked: \<open>makedirs\<close> has
  created it.)
\<close>

definition os_mkdir :: "world \<Rightarrow> string \<Rightarrow> (exn + unit) \<times> world" where
  "os_mkdir w name =
     (if name = [] then (Inl FileNotFoundError, w)
      else if path_exists w name then (Inl FileExistsError, w)
      else if (case lookup w (dirname name) of Some (File c) \<Rightarrow> True | _ \<Rightarrow> False)
           then (Inl NotADirectoryError, w)
      else if name \<in> locked w then (Inl PermissionError, w)
      else (Inr (), commit (AList.update name Dir (nodes w)) w))"

text \<open>The last step of \<open>makedirs\<close>: an error of \<open>mkdir\<close> is dropped when the directory is there.\<close>

definition mkdir_exist_ok :: "world \<Rightarrow> string \<Rightarrow> (exn + unit) \<times> world" where
  "mkdir_exist_ok w name =
     (case os_mkdir w name of
        (Inl e, w') \<Rightarrow> if isdir w' name then (Inr (), w') else (Inl e, w')
      | (Inr u, w') \<Rightarrow> (Inr u, w'))"

text \<open>The head and tail \<open>makedirs\<close> works with: the path is split again when it ends in a separator.\<close>

definition makedirs_split :: "string \<Rightarrow> string \<times> string" where
  "makedirs_split name =
     (let ht = path_split name
      in if snd ht = [] then path_split (fst ht) else ht)"

lemma rfind_char_bound: "rfind_char c s < int (length s)"
  unfolding rfind_char_def
  by (auto split: list.splits dest!: arg_cong[where f=set] simp: filter_eq_Cons_iff)

lemma path_split_head_le: "length (fst (path_split p)) \<le> length p"
  by (auto simp: path_split_def Let_def rstrip_slash_def intro: order_trans[OF length_dropWhile_le])

lemma path_split_head_less:
  "snd (path_split p) \<noteq> [] \<Longrightarrow> length (fst (path_split p)) < length p"
  using length_dropWhile_le[of "\<lambda>c. c = CHR ''/''" "rev (take (nat (rfind_char CHR ''/'' p + 1)) p)"]
  by (auto simp: path_split_def Let_def rstrip_slash_def)

lemma makedirs_split_less:
  "snd (makedirs_split name) \<noteq> [] \<Longrightarrow> length (fst (makedirs_split name)) < length name"
  using path_split_head_less[of name] path_split_head_less[of "fst (path_split name)"]
        path_split_head_le[of name]
  by (auto simp: makedirs_split_def Let_def split: if_splits)

function makedirs :: "world \<Rightarrow> string \<Rightarrow> (exn + unit) \<times> world" where
  "makedirs w name =
     (let head = fst (makedirs_split name);
          tail = snd (makedirs_split name)
      in if head \<noteq> [] \<and> tail \<noteq> [] \<and> \<not> path_exists w head
         then (case makedirs w head of
                 (Inl e, w1) \<Rightarrow>
                   if e = FileExistsError
                   then (if tail = ''.'' then (Inr (), w1) else mkdir_exist_ok w1 name)
                   else (Inl e, w1)
               | (Inr u, w1) \<Rightarrow>
                   if tail = ''.'' then (Inr (), w1) else mkdir_exist_ok w1 name)
         else mkdir_exist_ok w name)"
  by pat_completeness auto

termination
  by (relation "measure (\<lambda>(w, name). length name)") (auto simp: makedirs_split_less)

declare makedirs.simps [simp del]

subsection \<open>Listing and deleting\<close>

text \<open>The name of \<open>k\<close> as an entry of the directory \<open>d\<close>, when \<open>k\<close> lies directly in it.\<close>

definition entry_name :: "string \<Rightarrow> string \<Rightarrow> string option" where
  "entry_name d k =
     (let pre = path_join d [];
          name = drop (length pre) k
      in if prefix pre k \<and> name \<noteq> [] \<and> CHR ''/'' \<notin> set name then Some name else None)"

text \<open>\<open>os.listdir\<close> of a directory: \<open>PermissionError\<close> when it cannot be listed.\<close>

definition listdir :: "world \<Rightarrow> string \<Rightarrow> exn + string list" where
  "listdir w d =
     (if d \<in> unlistable w then Inl PermissionError
      else Inr (List.map_filter (entry_name d) (map fst (nodes w))))"

text \<open>\<open>k\<close> is \<open>d\<close> or lies below it.\<close>

definition inside :: "string \<Rightarrow> string \<Rightarrow> bool" where
  "inside d k = (k = d \<or> (prefix (path_join d []) k \<and> length (path_join d []) < length k))"

text \<open>
  \<open>shutil.rmtree(folder, ignore_errors=True)\<close>: every node in the tree is deleted,
  except a node that resists and the directories above one. A node resists when it is
  locked, or when it lies in a directory of the tree that cannot be listed (the walk
  never gets to it).
\<close>

definition rmtree_ignore :: "world \<Rightarrow> string \<Rightarrow> world" where
  "rmtree_ignore w folder =
     (let resists =
            (\<lambda>k. k \<in> locked w
                 \<or> list_ex (\<lambda>(d, n). d \<in> unlistable w \<and> inside folder d \<and> inside d k \<and> k \<noteq> d)
                      (nodes w))
      in commit
           (filter
              (\<lambda>(k, n). \<not> inside folder k
                          \<or> list_ex (\<lambda>(k', n'). inside k k' \<and> resists k') (nodes w))
              (nodes w))
           w)"

section \<open>The single-file fetcher: \<open>download_file\<close>\<close>

definition MAX_RETRIES :: nat where
  "MAX_RETRIES = 3"

definition RETRY_DELAY :: nat where
  "RETRY_DELAY = 2"

text \<open>
  One pass through the body of the \<open>try\<close>: either the function is left (with a value or
  with an exception that is no \<open>RequestException\<close>), or a \<open>RequestException\<close> is
  raised and the handler runs.
\<close>

datatype attempt_result = Finished "exn + bool" | Failed

definition stream_to :: "world \<Rightarrow> string \<Rightarrow> string list \<Rightarrow> world" where
  "stream_to w temp_path chunks = fold (write_chunk temp_path) chunks w"

definition download_attempt :: "world \<Rightarrow> string \<Rightarrow> string \<Rightarrow> attempt_result \<times> world" where
  "download_attempt w encoded_url local_path =
     (let w1 = w\<lparr>requests := requests w @ [encoded_url]\<rparr>
      in case respond w (length (requests w)) encoded_url of
           ConnFail \<Rightarrow> (Failed, w1)
         | Resp status_code chunks aborted \<Rightarrow>
             if status_code = 403 \<or> status_code = 404 then (Finished (Inr False), w1)
             else if 400 \<le> status_code \<and> status_code < 600 then (Failed, w1)
             else
               (let temp_path = local_path @ ''.tmp''
                in case open_wb w1 temp_path of
                     (Inl e, w2) \<Rightarrow> (Finished (Inl e), w2)
                   | (Inr u, w2) \<Rightarrow>
                       (let w3 = stream_to w2 temp_path chunks
                        in if aborted then (Failed, w3)
                           else
                             (case getsize w3 temp_path of
                                Inl e \<Rightarrow> (Finished (Inl e), w3)
                              | Inr n \<Rightarrow>
                                  if n > 0
                                  then (case os_replace w3 temp_path local_path of
                                          (Inl e, w4) \<Rightarrow> (Finished (Inl e), w4)
                                        | (Inr u', w4) \<Rightarrow> (Finished (Inr True), w4))
                                  else (case os_remove w3 temp_path of
                                          (Inl e, w4) \<Rightarrow> (Finished (Inl e), w4)
                                        | (Inr u', w4) \<Rightarrow> (Finished (Inr False), w4))))))"

text \<open>
  The handler of \<open>requests.RequestException\<close>: back off unless this was the last attempt,
  then delete what is at the temporary and at the final path, ignoring any \<open>OSError\<close>.
\<close>

definition remove_quietly :: "string \<Rightarrow> world \<Rightarrow> world" where
  "remove_quietly p w = (if path_exists w p then snd (os_remove w p) else w)"

definition cleanup :: "world \<Rightarrow> nat \<Rightarrow> string \<Rightarrow> world" where
  "cleanup w attempt local_path =
     (let w1 = (if attempt < MAX_RETRIES then w\<lparr>slept := slept w + RETRY_DELAY * attempt\<rparr> else w)
      in fold remove_quietly [local_path @ ''.tmp'', local_path] w1)"

text \<open>The loop \<open>for attempt in range(1, MAX_RETRIES + 1)\<close>, and what follows it.\<close>

fun download_attempts :: "world \<Rightarrow> string \<Rightarrow> string \<Rightarrow> nat list \<Rightarrow> (exn + bool) \<times> world" where
  "download_attempts w encoded_url local_path [] = (Inr False, w)"
| "download_attempts w encoded_url local_path (attempt # rest) =
     (case download_attempt w encoded_url local_path of
        (Finished r, w') \<Rightarrow> (r, w')
      | (Failed, w') \<Rightarrow>
          download_attempts (cleanup w' attempt local_path) encoded_url local_path rest)"

definition download_file :: "world \<Rightarrow> string \<Rightarrow> string \<Rightarrow> (exn + bool) \<times> world" where
  "download_file w url local_path =
     (let fresh =
            (let encoded_url = replace_all '' '' ''%20'' url
             in case makedirs w (dirname local_path) of
                  (Inl e, w1) \<Rightarrow> (Inl e, w1)
                | (Inr u, w1) \<Rightarrow>
                    download_attempts w1 encoded_url local_path [1..<MAX_RETRIES + 1])
      in if path_exists w local_path
         then (case getsize w local_path of
                 Inl e \<Rightarrow> (Inl e, w)
               | Inr n \<Rightarrow> if n > 0 then (Inr True, w) else fresh)
         else fresh)"

section \<open>The pair materializer: \<open>download_pair\<close>\<close>

definition DEFAULT_VIDEO_EXTENSIONS :: "string list" where
  "DEFAULT_VIDEO_EXTENSIONS =
     [''mov'', ''mp4'', ''wmv'', ''avi'', ''3gp'', ''3g2'', ''m4v'', ''mpg'', ''flv'', ''webm'',
      ''jpg'', ''jpeg'', ''png'', ''gif'', ''bmp'', ''tiff'', ''tif'', ''webp'', ''heic'', ''svg'']"

text \<open>\<open>dehydrate_single_file\<close>: a call of an external tool, every failure swallowed.\<close>

definition dehydrate_single_file :: "string \<Rightarrow> world \<Rightarrow> world" where
  "dehydrate_single_file fpath w = w\<lparr>offline := offline w @ [fpath]\<rparr>"

text \<open>The test on an entry of the group directory, shared with \<open>folder_exists_for_pair\<close>.\<close>

definition entry_matches :: "string \<Rightarrow> string \<Rightarrow> bool" where
  "entry_matches file_id entry = (entry = file_id \<or> prefix (file_id @ '' - '') entry)"

text \<open>
  The folder of an identity: the first matching entry of the group directory, or else
  \<open>group_dir/file_id\<close>. A listing that raises \<open>PermissionError\<close> finds nothing.
\<close>

definition locate_folder :: "world \<Rightarrow> string \<Rightarrow> string \<Rightarrow> string \<Rightarrow> string" where
  "locate_folder w base_dir grp file_id =
     (let group_dir = path_join base_dir grp;
          folder =
            (if isdir w group_dir
             then (case listdir w group_dir of
                     Inl e \<Rightarrow> None
                   | Inr entries \<Rightarrow>
                       map_option (path_join group_dir) (find (entry_matches file_id) entries))
             else None)
      in case folder of
           None \<Rightarrow> path_join group_dir file_id
         | Some f \<Rightarrow> f)"

text \<open>\<open>video_url.rsplit(".", 1)[0] if "." in video_url else video_url\<close>\<close>

definition base_video_url :: "string \<Rightarrow> string" where
  "base_video_url video_url =
     (if CHR ''.'' \<in> set video_url
      then take (nat (rfind_char CHR ''.'' video_url)) video_url
      else video_url)"

text \<open>
  The loop over the extensions. It yields \<open>vid_ok\<close> and \<open>actual_vid_path\<close>. The test
  for the first attempt compares the extension with \<open>video_extensions[0]\<close>.
\<close>

fun try_extensions ::
  "world \<Rightarrow> string \<Rightarrow> string \<Rightarrow> string \<Rightarrow> string list \<Rightarrow> string list
     \<Rightarrow> (exn + bool \<times> string option) \<times> world" where
  "try_extensions w folder file_id video_url video_extensions [] = (Inr (False, None), w)"
| "try_extensions w folder file_id video_url video_extensions (ext # rest) =
     (let vid_path = path_join folder (file_id @ ''.'' @ ext);
          url = (if ext = hd video_extensions then video_url
                 else base_video_url video_url @ ''.'' @ ext)
      in case download_file w url vid_path of
           (Inl e, w') \<Rightarrow> (Inl e, w')
         | (Inr vid_ok, w') \<Rightarrow>
             if vid_ok then (Inr (True, Some vid_path), w')
             else try_extensions w' folder file_id video_url video_extensions rest)"

definition download_pair ::
  "world \<Rightarrow> string \<Rightarrow> string \<Rightarrow> string \<Rightarrow> string list option \<Rightarrow> bool
     \<Rightarrow> (exn + bool \<times> bool \<times> string \<times> string) \<times> world" where
  "download_pair w pdf_url video_url base_dir video_extensions_opt immediate_dehydrate =
     (let video_extensions =
            (case video_extensions_opt of None \<Rightarrow> DEFAULT_VIDEO_EXTENSIONS | Some es \<Rightarrow> es)
      in case parse_url_info pdf_url of
           Inl e \<Rightarrow> (Inl e, w)
         | Inr (grp, file_id) \<Rightarrow>
             (let folder = locate_folder w base_dir grp file_id
              in case makedirs w folder of
                   (Inl e, w1) \<Rightarrow> (Inl e, w1)
                 | (Inr u, w1) \<Rightarrow>
                     (let pdf_path = path_join folder (file_id @ ''.pdf'')
                      in case download_file w1 pdf_url pdf_path of
                           (Inl e, w2) \<Rightarrow> (Inl e, w2)
                         | (Inr pdf_ok, w2) \<Rightarrow>
                             (case try_extensions w2 folder file_id video_url
                                     video_extensions video_extensions of
                                (Inl e, w3) \<Rightarrow> (Inl e, w3)
                              | (Inr (vid_ok, actual_vid_path), w3) \<Rightarrow>
                                  if \<not> vid_ok
                                  then (Inr (False, False, grp, file_id),
                                        rmtree_ignore w3 folder)
                                  else
                                    (let w4 =
                                           (if immediate_dehydrate
                                            then
                                              (let w' = (if pdf_ok \<and> path_exists w3 pdf_path
                                                         then dehydrate_single_file pdf_path w3
                                                         else w3)
                                               in case actual_vid_path of
                                                    Some p \<Rightarrow>
                                                      if p \<noteq> [] \<and> path_exists w' p
                                                      then dehydrate_single_file p w'
                                                      else w'
                                                  | None \<Rightarrow> w')
                                            else w3)
                                     in (Inr (pdf_ok, vid_ok, grp, file_id), w4))))))"

section \<open>The dispatcher and the progress ledger\<close>

text \<open>
  What the loop over the finished futures keeps: the ledger and the two counters.
  \<open>collect\<close> is its body for one result; an exception of the worker counts as a failure.
\<close>

record tally =
  completed :: "string set"
  succeeded :: nat
  failed :: nat

definition pair_key :: "string \<Rightarrow> string \<Rightarrow> string" where
  "pair_key grp file_id = grp @ ''/'' @ file_id"

definition collect :: "exn + bool \<times> bool \<times> string \<times> string \<Rightarrow> tally \<Rightarrow> tally" where
  "collect result t =
     (case result of
        Inl e \<Rightarrow> t\<lparr>failed := failed t + 1\<rparr>
      | Inr (pdf_ok, vid_ok, grp, file_id) \<Rightarrow>
          if pdf_ok \<or> vid_ok
          then t\<lparr>completed := insert (pair_key grp file_id) (completed t),
                 succeeded := succeeded t + 1\<rparr>
          else t\<lparr>failed := failed t + 1\<rparr>)"

text \<open>
  The pool run with one worker: the pairs are materialized one after the other and
  collected in that order.
\<close>

fun run_pairs ::
  "world \<Rightarrow> (string \<times> string) list \<Rightarrow> string \<Rightarrow> string list option \<Rightarrow> bool \<Rightarrow> tally
     \<Rightarrow> tally \<times> world" where
  "run_pairs w [] output_dir exts dehydrate t = (t, w)"
| "run_pairs w ((pdf_url, vid_url) # remaining) output_dir exts dehydrate t =
     (case download_pair w pdf_url vid_url output_dir exts dehydrate of
        (result, w') \<Rightarrow> run_pairs w' remaining output_dir exts dehydrate (collect result t))"

definition folder_exists_for_pair :: "world \<Rightarrow> string \<Rightarrow> string \<Rightarrow> exn + bool" where
  "folder_exists_for_pair w pdf_url output_dir =
     (case parse_url_info pdf_url of
        Inl e \<Rightarrow> Inl e
      | Inr (grp, file_id) \<Rightarrow>
          (let group_dir = path_join output_dir grp
           in if \<not> isdir w group_dir then Inr False
              else (case listdir w group_dir of
                      Inl e \<Rightarrow> Inr True
                    | Inr entries \<Rightarrow> Inr (list_ex (entry_matches file_id) entries))))"

text \<open>
  The reconciliation loop of \<open>main\<close> in \<open>epstein_downloader.py\<close>: a pair whose key is in
  the ledger is skipped; one whose folder is on disk is added to the ledger and skipped;
  the others remain to be downloaded.
\<close>

fun reconcile ::
  "world \<Rightarrow> string \<Rightarrow> (string \<times> string) list \<Rightarrow> (string \<times> string) list \<Rightarrow> string set
     \<Rightarrow> exn + (string \<times> string) list \<times> string set" where
  "reconcile w output_dir [] remaining done = Inr (remaining, done)"
| "reconcile w output_dir ((p, m) # pairs) remaining done =
     (case parse_url_info p of
        Inl e \<Rightarrow> Inl e
      | Inr (grp, file_id) \<Rightarrow>
          if pair_key grp file_id \<in> done
          then reconcile w output_dir pairs remaining done
          else (case folder_exists_for_pair w p output_dir of
                  Inl e \<Rightarrow> Inl e
                | Inr True \<Rightarrow>
                    reconcile w output_dir pairs remaining (insert (pair_key grp file_id) done)
                | Inr False \<Rightarrow>
                    reconcile w output_dir pairs (remaining @ [(p, m)]) done))"

text \<open>The start of phase 3: \<open>--force\<close> clears the ledger and takes every pair.\<close>

definition select_remaining ::
  "bool \<Rightarrow> world \<Rightarrow> string \<Rightarrow> (string \<times> string) list \<Rightarrow> string set
     \<Rightarrow> exn + (string \<times> string) list \<times> string set" where
  "select_remaining force w output_dir pairs done =
     (if force then Inr (pairs, {}) else reconcile w output_dir pairs [] done)"

text \<open>
  \<open>retry_skipped.py\<close>: the pairs without a folder on disk, and the loop that takes
  their keys out of the ledger before they are tried again.
\<close>

fun find_skipped_pairs ::
  "world \<Rightarrow> (string \<times> string) list \<Rightarrow> string \<Rightarrow> exn + (string \<times> string) list" where
  "find_skipped_pairs w [] output_dir = Inr []"
| "find_skipped_pairs w ((pdf_url, vid_url) # pairs) output_dir =
     (case folder_exists_for_pair w pdf_url output_dir of
        Inl e \<Rightarrow> Inl e
      | Inr found \<Rightarrow>
          (case find_skipped_pairs w pairs output_dir of
             Inl e \<Rightarrow> Inl e
           | Inr skipped \<Rightarrow> Inr (if found then skipped else (pdf_url, vid_url) # skipped)))"

fun clear_skipped :: "(string \<times> string) list \<Rightarrow> string set \<Rightarrow> exn + string set" where
  "clear_skipped [] done = Inr done"
| "clear_skipped ((pdf_url, vid_url) # skipped) done =
     (case parse_url_info pdf_url of
        Inl e \<Rightarrow> Inl e
      | Inr (grp, file_id) \<Rightarrow> clear_skipped skipped (done - {pair_key grp file_id}))"

definition retry_ledger ::
  "world \<Rightarrow> (string \<times> string) list \<Rightarrow> string \<Rightarrow> string set \<Rightarrow> exn + string set" where
  "retry_ledger w pairs output_dir done =
     (case find_skipped_pairs w pairs output_dir of
        Inl e \<Rightarrow> Inl e
      | Inr skipped \<Rightarrow> clear_skipped skipped done)"

section \<open>Vocabulary of the properties\<close>

text \<open>
  A sequence of reconciliations, each against its own state of the disk and its own list
  of pairs, the ledger handed from one to the next.
\<close>

fun reconcile_runs ::
  "(world \<times> string \<times> (string \<times> string) list) list \<Rightarrow> string set \<Rightarrow> exn + string set" where
  "reconcile_runs [] done = Inr done"
| "reconcile_runs ((w, output_dir, pairs) # runs) done =
     (case select_remaining False w output_dir pairs done of
        Inl e \<Rightarrow> Inl e
      | Inr (remaining, done') \<Rightarrow> reconcile_runs runs done')"

text \<open>
  \<open>same_env\<close>: the second state has the permissions and the transport of the first.
  \<open>fs_only\<close>: moreover it has the same request log, delays and offline marks, so that
  only the file system can differ.
\<close>

definition same_env :: "world \<Rightarrow> world \<Rightarrow> bool" where
  "same_env w w' = (locked w' = locked w \<and> unlistable w' = unlistable w
                    \<and> dir_size w' = dir_size w \<and> respond w' = respond w)"

definition fs_only :: "world \<Rightarrow> world \<Rightarrow> bool" where
  "fs_only w w' = (same_env w w' \<and> requests w' = requests w \<and> slept w' = slept w
                   \<and> offline w' = offline w)"

text \<open>
  The exceptions raised by the file system operations of the model (subclasses of
  \<open>OSError\<close> that are no \<open>requests.RequestException\<close>).
\<close>

definition fs_error :: "exn \<Rightarrow> bool" where
  "fs_error e = (e \<in> {FileNotFoundError, FileExistsError, NotADirectoryError,
                        IsADirectoryError, PermissionError})"

text \<open>
  The answers after which a further attempt can follow: a transport error, an error
  status other than 403 and 404, or a body whose stream breaks off.
\<close>

definition retryable :: "outcome \<Rightarrow> bool" where
  "retryable out =
     (case out of
        ConnFail \<Rightarrow> True
      | Resp s chunks aborted \<Rightarrow> s \<noteq> 403 \<and> s \<noteq> 404 \<and> ((400 \<le> s \<and> s < 600) \<or> aborted))"

text \<open>
  The temporary path can be opened for writing: it is not locked and no directory.
\<close>

definition tmp_ok :: "world \<Rightarrow> string \<Rightarrow> bool" where
  "tmp_ok w p = (p @ ''.tmp'' \<notin> locked w \<and> lookup w (p @ ''.tmp'') \<noteq> Some Dir)"

text \<open>
  How the answer to the last request of a fetch determines its result: 403 and 404 give
  \<open>False\<close>; any other answer that ends the fetch has no error status, and then the
  result is \<open>True\<close> for a complete non-empty body, \<open>False\<close> for a complete empty
  one, or a file system error (which, when the temporary path is writable, can only come
  from moving a complete non-empty body to the final path).
\<close>

definition verdict :: "bool \<Rightarrow> outcome \<Rightarrow> exn + bool \<Rightarrow> bool" where
  "verdict writable out r =
     (case out of
        ConnFail \<Rightarrow> False
      | Resp s chunks aborted \<Rightarrow>
          if s = 403 \<or> s = 404 then r = Inr False
          else \<not> (400 \<le> s \<and> s < 600) \<and>
               (case r of
                  Inl e \<Rightarrow> fs_error e \<and> (writable \<longrightarrow> \<not> aborted \<and> concat chunks \<noteq> [])
                | Inr ok \<Rightarrow> \<not> aborted \<and> ok = (concat chunks \<noteq> [])))"

text \<open>
  What may stand at the final path of a fetch (C5). \<open>complete_body\<close>: a non-empty
  text that is the whole body of an answer of the transport for the URL, with a status
  that is no error and a stream that ended. \<open>final_ok\<close>: a file at the final path
  is the file that was there before the fetch, or holds a complete body. \<open>keeps\<close>:
  a step from one state to another that, started where the property holds, records
  only states where it holds and ends in one.
\<close>

definition complete_body :: "world \<Rightarrow> string \<Rightarrow> string \<Rightarrow> bool" where
  "complete_body w enc c =
     (c \<noteq> [] \<and> (\<exists>k s chunks. respond w k enc = Resp s chunks False
                      \<and> \<not> (400 \<le> s \<and> s < 600) \<and> c = concat chunks))"

definition final_ok :: "world \<Rightarrow> string \<Rightarrow> string \<Rightarrow> (string \<times> node) list \<Rightarrow> bool" where
  "final_ok w0 enc p ns =
     (case map_of ns p of
        Some (File c) \<Rightarrow> map_of (nodes w0) p = Some (File c) \<or> complete_body w0 enc c
      | _ \<Rightarrow> True)"

definition keeps :: "((string \<times> node) list \<Rightarrow> bool) \<Rightarrow> world \<Rightarrow> world \<Rightarrow> bool" where
  "keeps P w w' = (P (nodes w) \<longrightarrow> (\<exists>new. hist w' = new @ hist w \<and> list_all P new \<and> P (nodes w')))"

text \<open>
  Companion probing as the specification words it (C4), to be compared with
  \<open>try_extensions\<close>. The base URL is the companion URL without its extension, the
  extension being what \<open>os.path.splitext\<close> takes for one: the text from the last dot of
  the last segment. The first extension of the priority list is fetched from the
  companion URL as it is, every later one from the base URL, a dot and that extension;
  the first success ends the probing. The position in the list decides, not the text of
  the extension.
\<close>

definition strip_extension :: "string \<Rightarrow> string" where
  "strip_extension companion_url = fst (splitext companion_url)"

fun probe_rest ::
  "world \<Rightarrow> string \<Rightarrow> string \<Rightarrow> string \<Rightarrow> string list \<Rightarrow> (exn + bool \<times> string option) \<times> world" where
  "probe_rest w folder file_id base [] = (Inr (False, None), w)"
| "probe_rest w folder file_id base (ext # rest) =
     (case download_file w (base @ ''.'' @ ext) (path_join folder (file_id @ ''.'' @ ext)) of
        (Inl e, w') \<Rightarrow> (Inl e, w')
      | (Inr ok, w') \<Rightarrow>
          if ok then (Inr (True, Some (path_join folder (file_id @ ''.'' @ ext))), w')
          else probe_rest w' folder file_id base rest)"

definition probe_in_order ::
  "world \<Rightarrow> string \<Rightarrow> string \<Rightarrow> string \<Rightarrow> string list \<Rightarrow> (exn + bool \<times> string option) \<times> world" where
  "probe_in_order w folder file_id companion_url extension_priority =
     (case extension_priority of
        [] \<Rightarrow> (Inr (False, None), w)
      | first # rest \<Rightarrow>
          (case download_file w companion_url (path_join folder (file_id @ ''.'' @ first)) of
             (Inl e, w') \<Rightarrow> (Inl e, w')
           | (Inr ok, w') \<Rightarrow>
               if ok then (Inr (True, Some (path_join folder (file_id @ ''.'' @ first))), w')
               else probe_rest w' folder file_id (strip_extension companion_url) rest))"

text \<open>
  What the fetches of the loop over the extensions return, in the order of the loop: one
  result for each extension, up to the first fetch that does not return \<open>False\<close>.
\<close>

fun probe_results ::
  "world \<Rightarrow> string \<Rightarrow> string \<Rightarrow> string \<Rightarrow> string list \<Rightarrow> string list \<Rightarrow> (exn + bool) list" where
  "probe_results w folder file_id video_url video_extensions [] = []"
| "probe_results w folder file_id video_url video_extensions (ext # rest) =
     (let vid_path = path_join folder (file_id @ ''.'' @ ext);
          url = (if ext = hd video_extensions then video_url
                 else base_video_url video_url @ ''.'' @ ext)
      in case download_file w url vid_path of
           (Inr False, w') \<Rightarrow>
             Inr False # probe_results w' folder file_id video_url video_extensions rest
         | (r, w') \<Rightarrow> [r])"

subsection \<open>Concrete states for the examples\<close>

text \<open>
  An empty disk, with a transport that answers 404 to everything.
\<close>

definition W_empty :: world where
  "W_empty = \<lparr>nodes = [], locked = {}, unlistable = {}, dir_size = 4096,
              respond = (\<lambda>k u. Resp 404 [] False),
              requests = [], slept = 0, offline = [], hist = []\<rparr>"

definition pair_ABC :: "string \<times> string" where
  "pair_ABC = (''https://h/DataSet 1/ABC.pdf'', ''https://h/DataSet 1/ABC.mov'')"

text \<open>
  A disk where the folder of \<open>DataSet_1/ABC\<close> has been renamed by the summary step.
\<close>

definition W_disk :: world where
  "W_disk = W_empty\<lparr>nodes := [(''out'', Dir), (''out/DataSet_1'', Dir),
                               (''out/DataSet_1/ABC - Deposition notes'', Dir)]\<rparr>"

definition pair_XYZ :: "string \<times> string" where
  "pair_XYZ = (''https://h/DataSet 1/XYZ.pdf'', ''https://h/DataSet 1/XYZ.mov'')"

text \<open>
  A disk where \<open>out\<close> is a regular file; a transport that fails once and then
  answers 404; one that answers 503 and then 200 with an empty body.
\<close>

definition W_blocked :: world where
  "W_blocked = W_empty\<lparr>nodes := [(''out'', File ''not a directory'')],
                        respond := (\<lambda>k u. Resp 200 [''%PDF''] False)\<rparr>"

definition W_flaky :: world where
  "W_flaky = W_empty\<lparr>respond := (\<lambda>k u. if k = 0 then ConnFail else Resp 404 [] False)\<rparr>"

definition W_hollow :: world where
  "W_hollow = W_empty\<lparr>respond := (\<lambda>k u. if k = 0 then Resp 503 [''busy''] False else Resp 200 [[], []] False)\<rparr>"

text \<open>
  A disk where the temporary path of \<open>out/a.pdf\<close> is a directory.
\<close>

definition W_tmpdir :: world where
  "W_tmpdir = W_empty\<lparr>nodes := [(''out'', Dir), (''out/a.pdf.tmp'', Dir)],
                       respond := (\<lambda>k u. Resp 200 [''%PDF''] False)\<rparr>"

text \<open>
  A transport that is down; one that answers 300 with a body; and a disk where the
  temporary path of \<open>out/a.pdf\<close> is a directory, with a transport that answers 200 with
  an empty body.
\<close>

definition W_down :: world where
  "W_down = W_empty\<lparr>respond := (\<lambda>k u. ConnFail)\<rparr>"

definition W_choices :: world where
  "W_choices = W_empty\<lparr>respond := (\<lambda>k u. Resp 300 [''<html>''] False)\<rparr>"

definition W_tmpdir_hollow :: world where
  "W_tmpdir_hollow = W_empty\<lparr>nodes := [(''out'', Dir), (''out/a.pdf.tmp'', Dir)],
                              respond := (\<lambda>k u. Resp 200 [] False)\<rparr>"

text \<open>
  A transport whose stream breaks off after two chunks, and one that serves a body of
  two chunks.
\<close>

definition W_abort :: world where
  "W_abort = W_empty\<lparr>respond := (\<lambda>k u. Resp 200 [''par'', ''tial''] True)\<rparr>"

definition W_serve :: world where
  "W_serve = W_empty\<lparr>respond := (\<lambda>k u. Resp 200 [''%PDF'', ''-1.4''] False)\<rparr>"

text \<open>
  A transport that serves the primary document of \<open>DataSet_1/ABC\<close> and no companion,
  on an empty disk; and the same with a folder on disk that holds a locked file.
\<close>

definition W_nocomp :: world where
  "W_nocomp = W_empty\<lparr>respond := (\<lambda>k u. if u = ''https://h/DataSet%201/ABC.pdf''
                                          then Resp 200 [''%PDF''] False else Resp 404 [] False)\<rparr>"

definition W_locked :: world where
  "W_locked = W_nocomp\<lparr>nodes := [(''out'', Dir), (''out/DataSet_1'', Dir),
                                  (''out/DataSet_1/ABC'', Dir),
                                  (''out/DataSet_1/ABC/summary.txt'', File ''notes'')],
                        locked := {''out/DataSet_1/ABC/summary.txt''}\<rparr>"

text \<open>
  A disk with the complete, renamed folder of \<open>DataSet_1/ABC\<close>; a transport that
  serves the primary document and the companion as \<open>.mp4\<close> only, and the state after
  the pair has been materialized with it.
\<close>

definition W_complete :: world where
  "W_complete = W_empty\<lparr>nodes := [(''out'', Dir), (''out/DataSet_1'', Dir),
                                    (''out/DataSet_1/ABC - Deposition notes'', Dir),
                                    (''out/DataSet_1/ABC - Deposition notes/ABC.pdf'', File ''%PDF''),
                                    (''out/DataSet_1/ABC - Deposition notes/ABC.mov'', File ''moov'')]\<rparr>"

definition W_mp4 :: world where
  "W_mp4 = W_empty\<lparr>respond := (\<lambda>k u. if u = ''https://h/DataSet%201/ABC.pdf''
                                           \<or> u = ''https://h/DataSet%201/ABC.mp4''
                                       then Resp 200 [''data''] False else Resp 404 [] False)\<rparr>"

definition W_mp4_done :: world where
  "W_mp4_done = snd (download_pair W_mp4 (fst pair_ABC) (snd pair_ABC) ''out''
                       (Some [''mov'', ''mp4'']) False)"

text \<open>
  A transport that serves \<open>item.pdf\<close>, \<open>item.mp4\<close> and \<open>item.jpg\<close> below
  \<open>https://x/y/\<close>, each with a body of its own, and answers 404 to everything else.
\<close>

definition W_item :: world where
  "W_item = W_empty\<lparr>respond := (\<lambda>k u. if u = ''https://x/y/item.pdf'' then Resp 200 [''%PDF''] False
                                        else if u = ''https://x/y/item.mp4'' then Resp 200 [''mp4 body''] False
                                        else if u = ''https://x/y/item.jpg'' then Resp 200 [''jpg body''] False
                                        else Resp 404 [] False)\<rparr>"

text \<open>
  A transport that serves everything, on a disk where the folder of \<open>DataSet_1/ABC\<close>
  exists and the temporary path of the companion \<open>ABC.mov\<close> is a directory.
\<close>

definition W_vid_tmpdir :: world where
  "W_vid_tmpdir = W_empty\<lparr>nodes := [(''out'', Dir), (''out/DataSet_1'', Dir),
                                      (''out/DataSet_1/ABC'', Dir),
                                      (''out/DataSet_1/ABC/ABC.mov.tmp'', Dir)],
                            respond := (\<lambda>k u. Resp 200 [''data''] False)\<rparr>"

section \<open>Properties of the identity resolver\<close>







section \<open>The progress file\<close>

text \<open>
  Claim C9. \<open>load_progress\<close> returns the empty set when the progress file is missing or
  is not JSON. The claim that it does so for every damaged file fails: a file that holds
  JSON of another shape than an object with a list under \<open>completed\<close> raises
  \<open>AttributeError\<close> or \<open>TypeError\<close>, and bytes that do not decode raise
  \<open>UnicodeDecodeError\<close>; none of them is caught.
\<close>

theorem load_progress_wrong_shape_raises:
  "load_progress Missing = Inr {}
   \<and> load_progress NotJson = Inr {}
   \<and> load_progress (Doc (JObj [(''completed'', JArr [JStr ''DataSet_1/A''])])) = Inr {JStr ''DataSet_1/A''}
   \<and> load_progress (Doc (JArr [])) = Inl AttributeError
   \<and> load_progress (Doc JNull) = Inl AttributeError
   \<and> load_progress (Doc (JObj [(''completed'', JNull)])) = Inl TypeError
   \<and> load_progress (Doc (JObj [(''completed'', JArr [JArr []])])) = Inl TypeError
   \<and> load_progress Undecodable = Inl UnicodeDecodeError"
  by (simp add: load_progress_def)

section \<open>Reconciliation of the ledger\<close>

lemma reconcile_grows:
  "reconcile w output_dir pairs remaining done = Inr (remaining', done') \<Longrightarrow> done \<subseteq> done'"
proof (induction pairs arbitrary: remaining "done")
  case Nil
  then show ?case by simp
next
  case (Cons pm pairs)
  obtain p m where pm: "pm = (p, m)" by (cases pm)
  from Cons.prems show ?case
    unfolding pm
    by (auto split: sum.splits prod.splits if_splits bool.splits dest: Cons.IH)
qed

lemma reconcile_new_keys:
  "reconcile w output_dir pairs remaining done = Inr (remaining', done') \<Longrightarrow>
   k \<in> done' \<Longrightarrow> k \<notin> done \<Longrightarrow>
   \<exists>p m grp file_id. (p, m) \<in> set pairs \<and> parse_url_info p = Inr (grp, file_id)
      \<and> k = pair_key grp file_id \<and> folder_exists_for_pair w p output_dir = Inr True"
proof (induction pairs arbitrary: remaining "done")
  case Nil
  then show ?case by simp
next
  case (Cons pm pairs)
  obtain p m where pm: "pm = (p, m)" by (cases pm)
  from Cons.prems(1) obtain grp file_id where
    parse: "parse_url_info p = Inr (grp, file_id)"
    unfolding pm by (auto split: sum.splits)
  show ?case
  proof (cases "pair_key grp file_id \<in> done")
    case True
    with Cons.prems parse have "reconcile w output_dir pairs remaining done = Inr (remaining', done')"
      unfolding pm by simp
    from Cons.IH[OF this Cons.prems(2,3)] show ?thesis by auto
  next
    case notin: False
    from Cons.prems(1) parse notin obtain b where
      fe: "folder_exists_for_pair w p output_dir = Inr b"
      unfolding pm by (auto split: sum.splits)
    show ?thesis
    proof (cases b)
      case True
      with Cons.prems(1) parse notin fe have
        r: "reconcile w output_dir pairs remaining (insert (pair_key grp file_id) done)
             = Inr (remaining', done')"
        unfolding pm by simp
      show ?thesis
      proof (cases "k = pair_key grp file_id")
        case True
        with parse fe \<open>b\<close> show ?thesis unfolding pm by auto
      next
        case False
        with Cons.prems(3) have "k \<notin> insert (pair_key grp file_id) done" by simp
        from Cons.IH[OF r Cons.prems(2) this] show ?thesis by auto
      qed
    next
      case False
      with Cons.prems(1) parse notin fe have
        "reconcile w output_dir pairs (remaining @ [(p, m)]) done = Inr (remaining', done')"
        unfolding pm by simp
      from Cons.IH[OF this Cons.prems(2,3)] show ?thesis by auto
    qed
  qed
qed

lemma reconcile_runs_grows:
  "reconcile_runs runs done = Inr done' \<Longrightarrow> done \<subseteq> done'"
proof (induction runs arbitrary: "done")
  case Nil
  then show ?case by simp
next
  case (Cons r runs)
  obtain w out pairs where r: "r = (w, out, pairs)" by (cases r)
  from Cons.prems show ?case
    unfolding r
    by (auto simp: select_remaining_def split: sum.splits prod.splits
             dest!: Cons.IH reconcile_grows)
qed

lemma reconcile_runs_append:
  "reconcile_runs (xs @ ys) done = Inr d2 \<Longrightarrow>
   \<exists>d1. reconcile_runs xs done = Inr d1 \<and> reconcile_runs ys d1 = Inr d2"
proof (induction xs arbitrary: "done")
  case Nil
  then show ?case by simp
next
  case (Cons r xs)
  obtain w out pairs where r: "r = (w, out, pairs)" by (cases r)
  from Cons.prems show ?case
    unfolding r
    by (auto split: sum.splits prod.splits dest!: Cons.IH)
qed

text \<open>
  Claim C2, as amended. The reconciliation of \<open>main\<close> in \<open>epstein_downloader.py\<close> only
  adds keys: the ledger it returns holds the ledger it was given, and every key it adds
  is the key of a listed pair whose folder is on disk. In a sequence of such
  reconciliations the ledger after any of them holds the ledger after every earlier one.
  With \<open>--force\<close> the ledger is cleared instead.
\<close>

theorem reconcile_only_adds:
  "(\<forall>w output_dir pairs done remaining done'.
      select_remaining False w output_dir pairs done = Inr (remaining, done') \<longrightarrow> done \<subseteq> done')
   \<and> (\<forall>w output_dir pairs done remaining done' k.
        select_remaining False w output_dir pairs done = Inr (remaining, done')
        \<and> k \<in> done' \<and> k \<notin> done
        \<longrightarrow> (\<exists>p m grp file_id. (p, m) \<in> set pairs \<and> parse_url_info p = Inr (grp, file_id)
               \<and> k = pair_key grp file_id \<and> folder_exists_for_pair w p output_dir = Inr True))
   \<and> (\<forall>runs later done d2.
        reconcile_runs (runs @ later) done = Inr d2 \<longrightarrow>
        (\<exists>d1. reconcile_runs runs done = Inr d1 \<and> done \<subseteq> d1 \<and> d1 \<subseteq> d2))
   \<and> (\<forall>w output_dir pairs done. select_remaining True w output_dir pairs done = Inr (pairs, {}))"
proof (intro conjI allI impI)
  fix w output_dir pairs "done" remaining done'
  assume "select_remaining False w output_dir pairs done = Inr (remaining, done')"
  then show "done \<subseteq> done'" by (simp add: select_remaining_def reconcile_grows)
next
  fix w output_dir pairs "done" remaining done' k
  assume "select_remaining False w output_dir pairs done = Inr (remaining, done')
        \<and> k \<in> done' \<and> k \<notin> done"
  then show "\<exists>p m grp file_id. (p, m) \<in> set pairs \<and> parse_url_info p = Inr (grp, file_id)
               \<and> k = pair_key grp file_id \<and> folder_exists_for_pair w p output_dir = Inr True"
    using reconcile_new_keys[of w output_dir pairs "[]" "done" remaining done' k]
    by (simp add: select_remaining_def)
next
  fix runs later "done" d2
  assume "reconcile_runs (runs @ later) done = Inr d2"
  from reconcile_runs_append[OF this]
  show "\<exists>d1. reconcile_runs runs done = Inr d1 \<and> done \<subseteq> d1 \<and> d1 \<subseteq> d2"
    by (auto dest: reconcile_runs_grows)
next
  fix w output_dir pairs "done"
  show "select_remaining True w output_dir pairs done = Inr (pairs, {})"
    by (simp add: select_remaining_def)
qed

theorem reconcile_only_adds_witness:
  "select_remaining False W_disk ''out'' [pair_ABC, pair_XYZ] {''DataSet_1/OLD''}
     = Inr ([pair_XYZ], {''DataSet_1/ABC'', ''DataSet_1/OLD''})
   \<and> {''DataSet_1/OLD''} \<subseteq> {''DataSet_1/ABC'', ''DataSet_1/OLD''}
   \<and> folder_exists_for_pair W_disk (fst pair_ABC) ''out'' = Inr True
   \<and> reconcile_runs ([(W_disk, ''out'', [pair_ABC, pair_XYZ])] @ [(W_empty, ''out'', [pair_XYZ])])
         {''DataSet_1/OLD''} = Inr {''DataSet_1/ABC'', ''DataSet_1/OLD''}
   \<and> (\<exists>d1. reconcile_runs [(W_disk, ''out'', [pair_ABC, pair_XYZ])] {''DataSet_1/OLD''} = Inr d1
          \<and> {''DataSet_1/OLD''} \<subseteq> d1 \<and> d1 \<subseteq> {''DataSet_1/ABC'', ''DataSet_1/OLD''})"
proof -
  have h1: "select_remaining False W_disk ''out'' [pair_ABC, pair_XYZ] {''DataSet_1/OLD''}
     = Inr ([pair_XYZ], {''DataSet_1/ABC'', ''DataSet_1/OLD''})"
    by code_simp
  have h2: "reconcile_runs ([(W_disk, ''out'', [pair_ABC, pair_XYZ])] @ [(W_empty, ''out'', [pair_XYZ])])
         {''DataSet_1/OLD''} = Inr {''DataSet_1/ABC'', ''DataSet_1/OLD''}"
    by code_simp
  have h3: "folder_exists_for_pair W_disk (fst pair_ABC) ''out'' = Inr True" by code_simp
  from reconcile_only_adds [THEN conjunct1, rule_format, OF h1]
       reconcile_only_adds [THEN conjunct2, THEN conjunct2, THEN conjunct1, rule_format, OF h2] h1 h2 h3
  show ?thesis by blast
qed

text \<open>
  The claim as stated also covers the reconciliation of \<open>retry_skipped.py\<close>, which takes
  out of the ledger the key of every pair that has no folder on disk: with the key of
  \<open>DataSet_1/ABC\<close> in the ledger and an empty disk, the ledger it saves is empty.
\<close>

theorem retry_removes_key:
  "retry_ledger W_empty [pair_ABC] ''out'' {''DataSet_1/ABC''} = Inr {}"
  by code_simp

section \<open>The fetcher: frames, attempts and the retry loop\<close>

lemma same_env_refl [simp]: "same_env w w"
  by (simp add: same_env_def)

lemma same_env_trans: "same_env w w1 \<Longrightarrow> same_env w1 w2 \<Longrightarrow> same_env w w2"
  by (simp add: same_env_def)

lemma fs_only_refl [simp]: "fs_only w w"
  by (simp add: fs_only_def)

lemma fs_only_trans: "fs_only w w1 \<Longrightarrow> fs_only w1 w2 \<Longrightarrow> fs_only w w2"
  by (auto simp: fs_only_def same_env_def)

lemma fs_only_same_env: "fs_only w w' \<Longrightarrow> same_env w w'"
  by (simp add: fs_only_def)

lemma commit_sel [simp]:
  "nodes (commit ns w) = ns" "hist (commit ns w) = ns # hist w"
  "requests (commit ns w) = requests w" "locked (commit ns w) = locked w"
  "respond (commit ns w) = respond w" "unlistable (commit ns w) = unlistable w"
  "dir_size (commit ns w) = dir_size w" "slept (commit ns w) = slept w"
  "offline (commit ns w) = offline w"
  by (simp_all add: commit_def)

lemma fs_only_commit [simp]: "fs_only w (commit ns w)"
  by (simp add: fs_only_def same_env_def)

lemma lookup_commit [simp]: "lookup (commit ns w) p = map_of ns p"
  by (simp add: lookup_def)

lemma fs_only_open_wb: "open_wb w p = (r, w') \<Longrightarrow> fs_only w w'"
  by (auto simp: open_wb_def split: if_splits)

lemma fs_only_write_chunk: "fs_only w (write_chunk p c w)"
  by (simp add: write_chunk_def split: option.splits node.splits)

lemma fs_only_stream_to: "fs_only w (stream_to w p chunks)"
  unfolding stream_to_def
proof (induction chunks arbitrary: w)
  case Nil
  show ?case by simp
next
  case (Cons c chunks)
  show ?case
    using fs_only_trans[OF fs_only_write_chunk Cons] by simp
qed

lemma fs_only_os_remove: "os_remove w p = (r, w') \<Longrightarrow> fs_only w w'"
  by (auto simp: os_remove_def split: option.splits node.splits if_splits)

lemma fs_only_os_replace: "os_replace w a b = (r, w') \<Longrightarrow> fs_only w w'"
  by (auto simp: os_replace_def split: option.splits node.splits if_splits)

lemma fs_only_os_mkdir: "os_mkdir w p = (r, w') \<Longrightarrow> fs_only w w'"
  by (auto simp: os_mkdir_def split: if_splits)

lemma fs_only_mkdir_exist_ok: "mkdir_exist_ok w p = (r, w') \<Longrightarrow> fs_only w w'"
  by (auto simp: mkdir_exist_ok_def split: prod.splits sum.splits if_splits
           dest: fs_only_os_mkdir)

lemma fs_only_makedirs: "makedirs w name = (r, w') \<Longrightarrow> fs_only w w'"
proof (induction w name arbitrary: r w' rule: makedirs.induct)
  case (1 w name)
  from "1.prems" show ?case
    apply (subst (asm) makedirs.simps)
    apply (auto simp: Let_def split: prod.splits sum.splits if_splits
                dest!: fs_only_mkdir_exist_ok "1.IH"[OF refl refl, rotated -1]
                intro: fs_only_trans)
    done
qed

lemma fs_only_remove_quietly: "fs_only w (remove_quietly p w)"
  by (cases "os_remove w p") (auto simp: remove_quietly_def dest: fs_only_os_remove)

lemma cleanup_frame:
  "same_env w (cleanup w attempt p)" "requests (cleanup w attempt p) = requests w"
  using fs_only_remove_quietly[of "remove_quietly (p @ ''.tmp'') w" p]
        fs_only_remove_quietly[of w "p @ ''.tmp''"]
        fs_only_remove_quietly[of "remove_quietly (p @ ''.tmp'') (w\<lparr>slept := slept w + RETRY_DELAY * attempt\<rparr>)" p]
        fs_only_remove_quietly[of "w\<lparr>slept := slept w + RETRY_DELAY * attempt\<rparr>" "p @ ''.tmp''"]
  by (auto simp: cleanup_def fs_only_def same_env_def)

lemma stream_to_sel [simp]:
  "requests (stream_to w p chunks) = requests w" "locked (stream_to w p chunks) = locked w"
  "respond (stream_to w p chunks) = respond w" "unlistable (stream_to w p chunks) = unlistable w"
  "dir_size (stream_to w p chunks) = dir_size w" "slept (stream_to w p chunks) = slept w"
  "offline (stream_to w p chunks) = offline w"
  using fs_only_stream_to[of w p chunks] by (simp_all add: fs_only_def same_env_def)

lemma download_attempt_frame:
  assumes "download_attempt w enc p = (a, w')"
  shows "same_env w w'" and "requests w' = requests w @ [enc]"
  using assms
  by (auto simp: download_attempt_def Let_def fs_only_def same_env_def
           split: outcome.splits if_splits prod.splits sum.splits
           dest!: fs_only_open_wb fs_only_os_replace fs_only_os_remove)

lemma lookup_write_chunk:
  "lookup (write_chunk p chunk w) q =
     (if q = p then (case lookup w p of Some (File c) \<Rightarrow> Some (File (c @ chunk)) | v \<Rightarrow> v)
      else lookup w q)"
  by (auto simp: write_chunk_def lookup_def update_conv' split: option.splits node.splits)

lemma lookup_stream_to:
  "lookup w p = Some (File c) \<Longrightarrow> lookup (stream_to w p chunks) p = Some (File (c @ concat chunks))"
  unfolding stream_to_def
  by (induction chunks arbitrary: w c) (simp_all add: lookup_write_chunk)

lemma open_wb_cases:
  "open_wb w p = (r, w') \<Longrightarrow>
     (r = Inl PermissionError \<and> p \<in> locked w \<and> w' = w)
   \<or> (r = Inl IsADirectoryError \<and> p \<notin> locked w \<and> lookup w p = Some Dir \<and> w' = w)
   \<or> (r = Inr () \<and> p \<notin> locked w \<and> lookup w p \<noteq> Some Dir
       \<and> w' = commit (AList.update p (File []) (nodes w)) w)"
  by (auto simp: open_wb_def split: if_splits)

lemma attempt_Failed:
  "download_attempt w enc p = (Failed, w') \<Longrightarrow> retryable (respond w (length (requests w)) enc)"
  by (auto simp: download_attempt_def Let_def retryable_def
           split: outcome.splits if_splits prod.splits sum.splits)

lemma attempt_Finished:
  assumes "download_attempt w enc p = (Finished r, w')"
  shows "\<exists>s chunks aborted. respond w (length (requests w)) enc = Resp s chunks aborted \<and>
           (if s = 403 \<or> s = 404 then r = Inr False
            else \<not> (400 \<le> s \<and> s < 600) \<and>
                 (case r of
                    Inl e \<Rightarrow> fs_error e
                  | Inr ok \<Rightarrow> \<not> aborted \<and> ok = (concat chunks \<noteq> [])))"
proof -
  obtain s chunks aborted where out: "respond w (length (requests w)) enc = Resp s chunks aborted"
    using assms by (auto simp: download_attempt_def Let_def split: outcome.splits)
  show ?thesis
  proof (cases "s = 403 \<or> s = 404")
    case True
    with assms out show ?thesis by (auto simp: download_attempt_def Let_def)
  next
    case False
    let ?w1 = "w\<lparr>requests := requests w @ [enc]\<rparr>"
    let ?t = "p @ ''.tmp''"
    from assms out False have ne: "\<not> (400 \<le> s \<and> s < 600)"
      by (auto simp: download_attempt_def Let_def split: if_splits)
    obtain ro w2 where o: "open_wb ?w1 ?t = (ro, w2)" by (cases "open_wb ?w1 ?t")
    from open_wb_cases[OF o] show ?thesis
    proof (elim disjE conjE)
      assume "ro = Inl PermissionError"
      with assms out False ne o show ?thesis
        by (auto simp: download_attempt_def Let_def fs_error_def)
    next
      assume "ro = Inl IsADirectoryError"
      with assms out False ne o show ?thesis
        by (auto simp: download_attempt_def Let_def fs_error_def)
    next
      assume ok: "ro = Inr ()" and w2: "w2 = commit (AList.update ?t (File []) (nodes ?w1)) ?w1"
      have "lookup w2 ?t = Some (File [])"
        by (simp add: w2 update_conv')
      from lookup_stream_to[OF this, of chunks]
      have l3: "lookup (stream_to w2 ?t chunks) ?t = Some (File (concat chunks))" by simp
      then have g3: "getsize (stream_to w2 ?t chunks) ?t = Inr (length (concat chunks))"
        by (simp add: getsize_def)
      from assms out False ne o ok g3 l3 show ?thesis
        by (auto simp: download_attempt_def Let_def fs_error_def os_replace_def os_remove_def
                 split: if_splits prod.splits sum.splits)
    qed
  qed
qed

lemma verdict_weaken: "verdict b out r \<Longrightarrow> (a \<longrightarrow> b) \<Longrightarrow> verdict a out r"
  by (auto simp: verdict_def split: outcome.splits sum.splits if_splits)

lemma attempt_verdict:
  assumes "download_attempt w enc p = (Finished r, w')"
  shows "verdict (tmp_ok w p) (respond w (length (requests w)) enc) r"
proof -
  from attempt_Finished[OF assms] obtain s chunks aborted where
    out: "respond w (length (requests w)) enc = Resp s chunks aborted" and
    v: "(if s = 403 \<or> s = 404 then r = Inr False
            else \<not> (400 \<le> s \<and> s < 600) \<and>
                 (case r of
                    Inl e \<Rightarrow> fs_error e
                  | Inr ok \<Rightarrow> \<not> aborted \<and> ok = (concat chunks \<noteq> [])))" by blast
  show ?thesis
  proof (cases "tmp_ok w p \<and> s \<noteq> 403 \<and> s \<noteq> 404 \<and> (\<exists>e. r = Inl e)")
    case False
    with out v show ?thesis by (auto simp: verdict_def split: sum.splits)
  next
    case True
    then obtain e where e: "r = Inl e" by blast
    let ?w1 = "w\<lparr>requests := requests w @ [enc]\<rparr>"
    let ?t = "p @ ''.tmp''"
    from True have t: "?t \<notin> locked w" "lookup w ?t \<noteq> Some Dir" by (auto simp: tmp_ok_def)
    from v True have ne: "\<not> (400 \<le> s \<and> s < 600)" by (auto split: if_splits)
    have l1: "lookup ?w1 ?t = lookup w ?t" by (simp add: lookup_def)
    define w2 where "w2 = commit (AList.update ?t (File []) (nodes ?w1)) ?w1"
    have o: "open_wb ?w1 ?t = (Inr (), w2)"
      using t l1 by (simp add: open_wb_def w2_def)
    have "lookup w2 ?t = Some (File [])"
      by (simp add: w2_def update_conv')
    from lookup_stream_to[OF this, of chunks]
    have l3: "lookup (stream_to w2 ?t chunks) ?t = Some (File (concat chunks))" by simp
    then have g3: "getsize (stream_to w2 ?t chunks) ?t = Inr (length (concat chunks))"
      by (simp add: getsize_def)
    have nl: "?t \<notin> locked (stream_to w2 ?t chunks)" using t by (simp add: w2_def)
    from assms out True ne o g3 l3 nl e have "\<not> aborted \<and> concat chunks \<noteq> []"
      by (auto simp: download_attempt_def Let_def os_remove_def
               split: if_splits prod.splits sum.splits)
    with out v True ne e show ?thesis by (auto simp: verdict_def)
  qed
qed

lemma lookup_os_remove:
  "os_remove w p = (r, w') \<Longrightarrow> lookup w' q = lookup w q \<or> (q = p \<and> lookup w' q = None)"
  by (auto simp: os_remove_def lookup_def delete_conv' split: option.splits node.splits if_splits)

lemma lookup_remove_quietly:
  "lookup (remove_quietly p w) q = lookup w q \<or> (q = p \<and> lookup (remove_quietly p w) q = None)"
  using lookup_os_remove[of w p "fst (os_remove w p)" "snd (os_remove w p)" q]
  by (auto simp: remove_quietly_def)

lemma lookup_cleanup:
  "lookup (cleanup w attempt p) q = lookup w q \<or> lookup (cleanup w attempt p) q = None"
proof -
  define w1 where "w1 = (if attempt < MAX_RETRIES then w\<lparr>slept := slept w + RETRY_DELAY * attempt\<rparr> else w)"
  have l1: "lookup w1 q = lookup w q" by (simp add: w1_def lookup_def)
  have c: "cleanup w attempt p = remove_quietly p (remove_quietly (p @ ''.tmp'') w1)"
    by (simp add: cleanup_def w1_def Let_def)
  show ?thesis
    using lookup_remove_quietly[of p "remove_quietly (p @ ''.tmp'') w1" q]
          lookup_remove_quietly[of "p @ ''.tmp''" w1 q] l1
    unfolding c by auto
qed

lemma tmp_ok_cleanup: "tmp_ok w p \<Longrightarrow> tmp_ok (cleanup w attempt p) p"
  using lookup_cleanup[of w attempt p "p @ ''.tmp''"] cleanup_frame(1)[of w attempt p]
  by (auto simp: tmp_ok_def same_env_def)

lemma lookup_open_wb:
  "open_wb w p = (r, w') \<Longrightarrow>
   lookup w' q = lookup w q \<or> (q = p \<and> r = Inr () \<and> lookup w' q = Some (File []))"
  by (auto simp: open_wb_def lookup_def update_conv' split: if_splits)

lemma lookup_stream_to_tmp:
  "lookup (stream_to w p chunks) p \<noteq> Some Dir \<or> lookup w p = Some Dir"
proof (cases "lookup w p")
  case None
  then have "lookup (stream_to w p chunks) p = None"
    unfolding stream_to_def
    by (induction chunks arbitrary: w) (simp_all add: lookup_write_chunk)
  then show ?thesis by simp
next
  case (Some n)
  then show ?thesis using lookup_stream_to[of w p _ chunks] by (cases n) auto
qed

lemma tmp_ok_attempt_Failed:
  assumes "download_attempt w enc p = (Failed, w')" "tmp_ok w p"
  shows "tmp_ok w' p"
proof -
  let ?w1 = "w\<lparr>requests := requests w @ [enc]\<rparr>"
  let ?t = "p @ ''.tmp''"
  have l1: "lookup ?w1 ?t = lookup w ?t" by (simp add: lookup_def)
  from download_attempt_frame(1)[OF assms(1)] assms(2) have nl: "?t \<notin> locked w'"
    by (simp add: same_env_def tmp_ok_def)
  from assms(1) have "w' = ?w1 \<or> (\<exists>w2. open_wb ?w1 ?t = (Inr (), w2) \<and> (\<exists>chunks. w' = stream_to w2 ?t chunks))"
    by (auto simp: download_attempt_def Let_def
             split: outcome.splits if_splits prod.splits sum.splits)
  then have "lookup w' ?t \<noteq> Some Dir"
  proof (elim disjE exE conjE)
    assume "w' = ?w1" with assms(2) l1 show ?thesis by (simp add: tmp_ok_def)
  next
    fix w2 chunks assume o: "open_wb ?w1 ?t = (Inr (), w2)" and w': "w' = stream_to w2 ?t chunks"
    from lookup_open_wb[OF o, of ?t] assms(2) l1 have "lookup w2 ?t \<noteq> Some Dir"
      by (auto simp: tmp_ok_def)
    with lookup_stream_to_tmp[of w2 ?t chunks] show ?thesis by (simp add: w')
  qed
  with nl show ?thesis by (simp add: tmp_ok_def)
qed

lemma download_attempts_trace:
  assumes "download_attempts w enc p attempts = (r, w')"
  shows "\<exists>m. m \<le> length attempts \<and> requests w' = requests w @ replicate m enc \<and> same_env w w'
           \<and> (\<forall>k. k + 1 < m \<longrightarrow> retryable (respond w (length (requests w) + k) enc))
           \<and> ((0 < m \<and> verdict (tmp_ok w p) (respond w (length (requests w) + (m - 1)) enc) r)
              \<or> (m = length attempts \<and> r = Inr False
                  \<and> (\<forall>k<m. retryable (respond w (length (requests w) + k) enc))))"
  using assms
proof (induction attempts arbitrary: w)
  case Nil
  then show ?case by (intro exI[of _ 0]) auto
next
  case (Cons a rest)
  obtain res w1 where att: "download_attempt w enc p = (res, w1)"
    by (cases "download_attempt w enc p")
  note fr = download_attempt_frame[OF att]
  show ?case
  proof (cases res)
    case (Finished r0)
    with Cons.prems att have "r = r0" "w' = w1" by auto
    with attempt_verdict[of w enc p r0 w1] att Finished fr show ?thesis
      by (intro exI[of _ 1]) auto
  next
    case Failed
    let ?w2 = "cleanup w1 a p"
    from Cons.prems att Failed have rec: "download_attempts ?w2 enc p rest = (r, w')" by simp
    have req2: "requests ?w2 = requests w @ [enc]" and env2: "same_env w ?w2"
      using fr cleanup_frame[of w1 a p] by (auto simp: same_env_def)
    then have resp2: "respond ?w2 = respond w" by (simp add: same_env_def)
    have r0: "retryable (respond w (length (requests w)) enc)"
      using attempt_Failed att Failed by blast
    have tmp: "tmp_ok w p \<longrightarrow> tmp_ok ?w2 p"
      using tmp_ok_attempt_Failed att Failed tmp_ok_cleanup by blast
    from Cons.IH[OF rec] obtain m where
      m: "m \<le> length rest" "requests w' = requests ?w2 @ replicate m enc" "same_env ?w2 w'"
      and mid: "\<forall>k. k + 1 < m \<longrightarrow> retryable (respond ?w2 (length (requests ?w2) + k) enc)"
      and fin: "(0 < m \<and> verdict (tmp_ok ?w2 p) (respond ?w2 (length (requests ?w2) + (m - 1)) enc) r)
              \<or> (m = length rest \<and> r = Inr False
                  \<and> (\<forall>k<m. retryable (respond ?w2 (length (requests ?w2) + k) enc)))"
      by blast
    have shift: "\<And>k. respond ?w2 (length (requests ?w2) + k) enc
                      = respond w (length (requests w) + Suc k) enc"
      by (simp add: resp2 req2)
    have A: "Suc m \<le> length (a # rest)" using m by simp
    have B: "requests w' = requests w @ replicate (Suc m) enc"
      using m req2 by (simp add: replicate_app_Cons_same)
    have C: "same_env w w'" using env2 m same_env_trans by blast
    have D: "\<forall>k. k + 1 < Suc m \<longrightarrow> retryable (respond w (length (requests w) + k) enc)"
    proof (intro allI impI)
      fix k assume "k + 1 < Suc m"
      then show "retryable (respond w (length (requests w) + k) enc)"
        using r0 mid shift by (cases k) auto
    qed
    have E: "(0 < Suc m \<and> verdict (tmp_ok w p) (respond w (length (requests w) + (Suc m - 1)) enc) r)
              \<or> (Suc m = length (a # rest) \<and> r = Inr False
                  \<and> (\<forall>k<Suc m. retryable (respond w (length (requests w) + k) enc)))"
      using fin
    proof (elim disjE conjE)
      assume "0 < m" and v: "verdict (tmp_ok ?w2 p) (respond ?w2 (length (requests ?w2) + (m - 1)) enc) r"
      then have "respond ?w2 (length (requests ?w2) + (m - 1)) enc
                  = respond w (length (requests w) + (Suc m - 1)) enc"
        using shift[of "m - 1"] by simp
      with verdict_weaken[OF v tmp] show ?thesis by simp
    next
      assume "m = length rest" "r = Inr False"
        and all: "\<forall>k<m. retryable (respond ?w2 (length (requests ?w2) + k) enc)"
      have "\<forall>k<Suc m. retryable (respond w (length (requests w) + k) enc)"
      proof (intro allI impI)
        fix k assume "k < Suc m"
        then show "retryable (respond w (length (requests w) + k) enc)"
          using r0 all shift by (cases k) auto
      qed
      with \<open>m = length rest\<close> \<open>r = Inr False\<close> show ?thesis by simp
    qed
    from A B C D E show ?thesis by blast
  qed
qed

lemma os_mkdir_cases:
  "os_mkdir w name = (r, w') \<Longrightarrow>
     (\<exists>e. r = Inl e \<and> fs_error e \<and> w' = w)
   \<or> (r = Inr () \<and> lookup w name = None \<and> w' = commit (AList.update name Dir (nodes w)) w)"
  by (auto simp: os_mkdir_def fs_error_def path_exists_def split: if_splits)

lemma mkdir_exist_ok_cases:
  "mkdir_exist_ok w name = (r, w') \<Longrightarrow>
     (\<exists>e. r = Inl e \<and> fs_error e \<and> w' = w)
   \<or> (r = Inr () \<and> w' = w)
   \<or> (r = Inr () \<and> lookup w name = None \<and> w' = commit (AList.update name Dir (nodes w)) w)"
  by (auto simp: mkdir_exist_ok_def split: prod.splits sum.splits if_splits
           dest!: os_mkdir_cases)

lemma makedirs_error: "makedirs w name = (Inl e, w') \<Longrightarrow> fs_error e"
proof (induction w name arbitrary: e w' rule: makedirs.induct)
  case (1 w name)
  from "1.prems" show ?case
    apply (subst (asm) makedirs.simps)
    apply (auto simp: Let_def split: prod.splits sum.splits if_splits
                dest!: mkdir_exist_ok_cases dest: "1.IH"[OF refl refl, rotated -1])
    done
qed

lemma lookup_mkdir_exist_ok:
  "mkdir_exist_ok w name = (r, w') \<Longrightarrow>
   lookup w' q = lookup w q \<or> (lookup w q = None \<and> lookup w' q = Some Dir \<and> q = name)"
  by (drule mkdir_exist_ok_cases) (auto simp: update_conv' lookup_def split: if_splits)

lemma lookup_makedirs:
  "makedirs w name = (r, w') \<Longrightarrow>
   lookup w' q = lookup w q
   \<or> (lookup w q = None \<and> lookup w' q = Some Dir \<and> length q \<le> length name)"
proof (induction w name arbitrary: r w' rule: makedirs.induct)
  case (1 w name)
  let ?head = "fst (makedirs_split name)"
  let ?tail = "snd (makedirs_split name)"
  show ?case
  proof (cases "?head \<noteq> [] \<and> ?tail \<noteq> [] \<and> \<not> path_exists w ?head")
    case False
    with "1.prems" have "mkdir_exist_ok w name = (r, w')"
      by (subst (asm) makedirs.simps) (auto simp: Let_def)
    from lookup_mkdir_exist_ok[OF this, of q] show ?thesis by auto
  next
    case True
    obtain r1 w1 where rec: "makedirs w ?head = (r1, w1)" by (cases "makedirs w ?head")
    from True have less: "length ?head < length name" by (simp add: makedirs_split_less)
    from "1.IH"[OF refl refl True rec] less
    have step1: "lookup w1 q = lookup w q
       \<or> (lookup w q = None \<and> lookup w1 q = Some Dir \<and> length q \<le> length name)"
      by auto
    from "1.prems" True rec have "w' = w1 \<or> (\<exists>r'. mkdir_exist_ok w1 name = (r', w'))"
      by (subst (asm) makedirs.simps) (auto simp: Let_def split: sum.splits if_splits)
    then show ?thesis
    proof
      assume "w' = w1" with step1 show ?thesis by simp
    next
      assume "\<exists>r'. mkdir_exist_ok w1 name = (r', w')"
      then obtain r' where "mkdir_exist_ok w1 name = (r', w')" ..
      from lookup_mkdir_exist_ok[OF this, of q] step1 show ?thesis by auto
    qed
  qed
qed

lemma dirname_length: "length (dirname p) \<le> length p"
  by (simp add: dirname_def path_split_head_le)

lemma tmp_ok_makedirs:
  assumes "makedirs w (dirname p) = (r, w1)" "tmp_ok w p"
  shows "tmp_ok w1 p"
proof -
  have "length (dirname p) < length (p @ ''.tmp'')"
    using dirname_length[of p] by simp
  with lookup_makedirs[OF assms(1), of "p @ ''.tmp''"]
  have "lookup w1 (p @ ''.tmp'') = lookup w (p @ ''.tmp'')" by auto
  with assms(2) fs_only_makedirs[OF assms(1)] show ?thesis
    by (simp add: tmp_ok_def fs_only_def same_env_def)
qed

lemma upt_MAX_RETRIES: "length [1..<MAX_RETRIES + 1] = MAX_RETRIES"
  by simp

lemma download_file_trace:
  assumes "download_file w url p = (r, w')"
  shows "\<exists>m. m \<le> MAX_RETRIES
           \<and> requests w' = requests w @ replicate m (replace_all '' '' ''%20'' url)
           \<and> same_env w w'
           \<and> (\<forall>k. k + 1 < m \<longrightarrow>
                 retryable (respond w (length (requests w) + k) (replace_all '' '' ''%20'' url)))
           \<and> ((m = 0 \<and> ((r = Inr True \<and> w' = w) \<or> (\<exists>e. r = Inl e \<and> fs_error e)))
              \<or> (0 < m \<and> verdict (tmp_ok w p)
                            (respond w (length (requests w) + (m - 1)) (replace_all '' '' ''%20'' url)) r)
              \<or> (m = MAX_RETRIES \<and> r = Inr False
                  \<and> (\<forall>k<m. retryable (respond w (length (requests w) + k)
                                         (replace_all '' '' ''%20'' url)))))"
proof -
  let ?enc = "replace_all '' '' ''%20'' url"
  let ?fresh = "case makedirs w (dirname p) of
                  (Inl e, w1) \<Rightarrow> (Inl e, w1)
                | (Inr u, w1) \<Rightarrow> download_attempts w1 ?enc p [1..<MAX_RETRIES + 1]"
  show ?thesis
  proof (cases "path_exists w p \<and> (\<exists>n>0. getsize w p = Inr n)")
    case True
    with assms have "r = Inr True" "w' = w"
      by (auto simp: download_file_def Let_def)
    then show ?thesis by (intro exI[of _ 0]) simp
  next
    case False
    have fresh: "?fresh = (r, w')"
    proof (cases "path_exists w p")
      case no: False
      with assms show ?thesis by (simp add: download_file_def Let_def)
    next
      case yes: True
      then have "\<exists>n. getsize w p = Inr n"
        by (auto simp: getsize_def path_exists_def split: option.splits node.splits)
      then obtain n where n: "getsize w p = Inr n" ..
      with False yes have "n = 0" by auto
      with assms yes n show ?thesis by (simp add: download_file_def Let_def)
    qed
    obtain rm w1 where mk: "makedirs w (dirname p) = (rm, w1)"
      by (cases "makedirs w (dirname p)")
    note fo = fs_only_makedirs[OF mk]
    show ?thesis
    proof (cases rm)
      case (Inl e)
      with fresh mk have "r = Inl e" "w' = w1" by auto
      with makedirs_error[of w "dirname p" e w1] mk Inl fo show ?thesis
        by (intro exI[of _ 0]) (auto simp: fs_only_def)
    next
      case (Inr u)
      with fresh mk have "download_attempts w1 ?enc p [1..<MAX_RETRIES + 1] = (r, w')" by simp
      from download_attempts_trace[OF this] obtain m where
        m: "m \<le> MAX_RETRIES" "requests w' = requests w1 @ replicate m ?enc" "same_env w1 w'"
        and mid: "\<forall>k. k + 1 < m \<longrightarrow> retryable (respond w1 (length (requests w1) + k) ?enc)"
        and fin: "(0 < m \<and> verdict (tmp_ok w1 p) (respond w1 (length (requests w1) + (m - 1)) ?enc) r)
              \<or> (m = MAX_RETRIES \<and> r = Inr False
                  \<and> (\<forall>k<m. retryable (respond w1 (length (requests w1) + k) ?enc)))"
        unfolding upt_MAX_RETRIES by blast
      have eq: "requests w1 = requests w" "respond w1 = respond w" "same_env w w1"
        using fo by (auto simp: fs_only_def same_env_def)
      have tmp: "tmp_ok w p \<longrightarrow> tmp_ok w1 p"
        using tmp_ok_makedirs[OF mk] by blast
      from fin have "(0 < m \<and> verdict (tmp_ok w p) (respond w (length (requests w) + (m - 1)) ?enc) r)
              \<or> (m = MAX_RETRIES \<and> r = Inr False
                  \<and> (\<forall>k<m. retryable (respond w (length (requests w) + k) ?enc)))"
        using verdict_weaken[OF _ tmp] unfolding eq by blast
      with m mid eq same_env_trans[OF eq(3) m(3)] show ?thesis
        by (intro exI[of _ m]) auto
    qed
  qed
qed

subsection \<open>What the final path holds\<close>

lemma keeps_refl [simp]: "keeps P w w"
  by (simp add: keeps_def)

lemma keeps_same: "nodes w' = nodes w \<Longrightarrow> hist w' = hist w \<Longrightarrow> keeps P w w'"
  by (simp add: keeps_def)

lemma keeps_trans: "keeps P w w1 \<Longrightarrow> keeps P w1 w2 \<Longrightarrow> keeps P w w2"
  unfolding keeps_def
proof
  assume a: "P (nodes w) \<longrightarrow> (\<exists>new. hist w1 = new @ hist w \<and> list_all P new \<and> P (nodes w1))"
     and b: "P (nodes w1) \<longrightarrow> (\<exists>new. hist w2 = new @ hist w1 \<and> list_all P new \<and> P (nodes w2))"
     and p: "P (nodes w)"
  from a p obtain n1 where n1: "hist w1 = n1 @ hist w" "list_all P n1" "P (nodes w1)" by blast
  with b obtain n2 where n2: "hist w2 = n2 @ hist w1" "list_all P n2" "P (nodes w2)" by blast
  from n1 n2 have "hist w2 = (n2 @ n1) @ hist w" "list_all P (n2 @ n1)" by simp_all
  with n2 show "\<exists>new. hist w2 = new @ hist w \<and> list_all P new \<and> P (nodes w2)" by blast
qed

lemma keeps_commit: "P ns \<Longrightarrow> keeps P w (commit ns w)"
  unfolding keeps_def by (intro impI exI[of _ "[ns]"]) simp

lemma final_ok_other:
  "map_of ns' p = map_of ns p \<Longrightarrow> final_ok w0 enc p ns \<Longrightarrow> final_ok w0 enc p ns'"
  by (simp add: final_ok_def)

lemma final_ok_not_file:
  "(\<And>c. map_of ns p \<noteq> Some (File c)) \<Longrightarrow> final_ok w0 enc p ns"
  by (auto simp: final_ok_def split: option.splits node.splits)

lemma keeps_open_wb:
  assumes "open_wb w q = (r, w')" "q \<noteq> p"
  shows "keeps (final_ok w0 enc p) w w'"
proof -
  from open_wb_cases[OF assms(1)] show ?thesis
  proof (elim disjE conjE)
    assume w': "w' = commit (AList.update q (File []) (nodes w)) w"
    have "keeps (final_ok w0 enc p) w w'" unfolding keeps_def
    proof
      assume "final_ok w0 enc p (nodes w)"
      then have "final_ok w0 enc p (AList.update q (File []) (nodes w))"
        using assms(2) by (auto intro: final_ok_other simp: update_conv')
      then show "\<exists>new. hist w' = new @ hist w \<and> list_all (final_ok w0 enc p) new
                  \<and> final_ok w0 enc p (nodes w')"
        unfolding w' by (intro exI[of _ "[AList.update q (File []) (nodes w)]"]) simp
    qed
    then show ?thesis .
  qed simp_all
qed

lemma keeps_write_chunk:
  assumes "q \<noteq> p"
  shows "keeps (final_ok w0 enc p) w (write_chunk q chunk w)"
proof (cases "\<exists>c. lookup w q = Some (File c)")
  case False
  then have "write_chunk q chunk w = w"
    by (auto simp: write_chunk_def split: option.splits node.splits)
  then show ?thesis by simp
next
  case True
  then obtain c where c: "lookup w q = Some (File c)" ..
  then have w': "write_chunk q chunk w = commit (AList.update q (File (c @ chunk)) (nodes w)) w"
    by (simp add: write_chunk_def)
  show ?thesis unfolding keeps_def w'
  proof
    assume "final_ok w0 enc p (nodes w)"
    then have "final_ok w0 enc p (AList.update q (File (c @ chunk)) (nodes w))"
      using assms by (auto intro: final_ok_other simp: update_conv')
    then show "\<exists>new. hist (commit (AList.update q (File (c @ chunk)) (nodes w)) w) = new @ hist w
                \<and> list_all (final_ok w0 enc p) new
                \<and> final_ok w0 enc p (nodes (commit (AList.update q (File (c @ chunk)) (nodes w)) w))"
      by (intro exI[of _ "[AList.update q (File (c @ chunk)) (nodes w)]"]) simp
  qed
qed

lemma keeps_stream_to:
  "q \<noteq> p \<Longrightarrow> keeps (final_ok w0 enc p) w (stream_to w q chunks)"
  unfolding stream_to_def
proof (induction chunks arbitrary: w)
  case Nil
  show ?case by simp
next
  case (Cons c chunks)
  from keeps_trans[OF keeps_write_chunk[OF Cons.prems] Cons.IH[OF Cons.prems]]
  show ?case by simp
qed

lemma keeps_os_remove:
  assumes "os_remove w q = (r, w')"
  shows "keeps (final_ok w0 enc p) w w'"
proof (cases "w' = w")
  case True
  then show ?thesis by simp
next
  case False
  with assms have w': "w' = commit (AList.delete q (nodes w)) w"
    by (auto simp: os_remove_def split: option.splits node.splits if_splits)
  show ?thesis unfolding keeps_def w'
  proof
    assume ok: "final_ok w0 enc p (nodes w)"
    have "final_ok w0 enc p (AList.delete q (nodes w))"
    proof (cases "q = p")
      case True
      then show ?thesis by (intro final_ok_not_file) (simp add: delete_conv')
    next
      case False
      then show ?thesis using ok by (auto intro: final_ok_other simp: delete_conv')
    qed
    then show "\<exists>new. hist (commit (AList.delete q (nodes w)) w) = new @ hist w
                \<and> list_all (final_ok w0 enc p) new
                \<and> final_ok w0 enc p (nodes (commit (AList.delete q (nodes w)) w))"
      by (intro exI[of _ "[AList.delete q (nodes w)]"]) simp
  qed
qed

lemma keeps_remove_quietly: "keeps (final_ok w0 enc p) w (remove_quietly q w)"
  using keeps_os_remove[of w q "fst (os_remove w q)" "snd (os_remove w q)"]
  by (simp add: remove_quietly_def)

lemma keeps_cleanup: "keeps (final_ok w0 enc p) w (cleanup w attempt p)"
proof -
  define w1 where "w1 = (if attempt < MAX_RETRIES then w\<lparr>slept := slept w + RETRY_DELAY * attempt\<rparr> else w)"
  have 1: "keeps (final_ok w0 enc p) w w1" by (rule keeps_same) (simp_all add: w1_def)
  have c: "cleanup w attempt p = remove_quietly p (remove_quietly (p @ ''.tmp'') w1)"
    by (simp add: cleanup_def w1_def Let_def)
  show ?thesis unfolding c
    by (rule keeps_trans[OF 1 keeps_trans[OF keeps_remove_quietly keeps_remove_quietly]])
qed

lemma keeps_os_mkdir:
  assumes "os_mkdir w q = (r, w')"
  shows "keeps (final_ok w0 enc p) w w'"
proof -
  from os_mkdir_cases[OF assms] show ?thesis
  proof (elim disjE conjE exE)
    assume none: "lookup w q = None" and w': "w' = commit (AList.update q Dir (nodes w)) w"
    show ?thesis unfolding keeps_def w'
    proof
      assume ok: "final_ok w0 enc p (nodes w)"
      have "final_ok w0 enc p (AList.update q Dir (nodes w))"
      proof (cases "q = p")
        case True
        then show ?thesis by (intro final_ok_not_file) (simp add: update_conv')
      next
        case False
        then show ?thesis using ok by (auto intro: final_ok_other simp: update_conv')
      qed
      then show "\<exists>new. hist (commit (AList.update q Dir (nodes w)) w) = new @ hist w
                \<and> list_all (final_ok w0 enc p) new
                \<and> final_ok w0 enc p (nodes (commit (AList.update q Dir (nodes w)) w))"
        by (intro exI[of _ "[AList.update q Dir (nodes w)]"]) simp
    qed
  qed simp_all
qed

lemma keeps_mkdir_exist_ok:
  "mkdir_exist_ok w q = (r, w') \<Longrightarrow> keeps (final_ok w0 enc p) w w'"
  by (auto simp: mkdir_exist_ok_def split: prod.splits sum.splits if_splits dest: keeps_os_mkdir)

lemma keeps_makedirs:
  "makedirs w name = (r, w') \<Longrightarrow> keeps (final_ok w0 enc p) w w'"
proof (induction w name arbitrary: r w' rule: makedirs.induct)
  case (1 w name)
  let ?head = "fst (makedirs_split name)"
  let ?tail = "snd (makedirs_split name)"
  show ?case
  proof (cases "?head \<noteq> [] \<and> ?tail \<noteq> [] \<and> \<not> path_exists w ?head")
    case False
    with "1.prems" have "mkdir_exist_ok w name = (r, w')"
      by (subst (asm) makedirs.simps) (auto simp: Let_def)
    then show ?thesis by (rule keeps_mkdir_exist_ok)
  next
    case True
    obtain r1 w1 where rec: "makedirs w ?head = (r1, w1)" by (cases "makedirs w ?head")
    note step1 = "1.IH"[OF refl refl True rec]
    from "1.prems" True rec have "w' = w1 \<or> (\<exists>r'. mkdir_exist_ok w1 name = (r', w'))"
      by (subst (asm) makedirs.simps) (auto simp: Let_def split: sum.splits if_splits)
    then show ?thesis
      using step1 keeps_mkdir_exist_ok keeps_trans by blast
  qed
qed

lemma keeps_os_replace:
  assumes "os_replace w src p = (r, w')" "src \<noteq> p"
      and "\<And>c. lookup w src = Some (File c) \<Longrightarrow> complete_body w0 enc c"
  shows "keeps (final_ok w0 enc p) w w'"
proof (cases "w' = w")
  case True
  then show ?thesis by simp
next
  case False
  with assms(1) obtain c where c: "lookup w src = Some (File c)"
    and w': "w' = commit (AList.update p (File c) (AList.delete src (nodes w))) w"
    by (auto simp: os_replace_def split: option.splits node.splits if_splits)
  have "final_ok w0 enc p (AList.update p (File c) (AList.delete src (nodes w)))"
    using assms(3)[OF c] by (simp add: final_ok_def update_conv')
  then show ?thesis unfolding keeps_def w'
    by (intro impI exI[of _ "[AList.update p (File c) (AList.delete src (nodes w))]"]) simp
qed

lemma lookup_os_replace_ok:
  "os_replace w src dst = (Inr u, w') \<Longrightarrow> \<exists>c. lookup w src = Some (File c) \<and> lookup w' dst = Some (File c)"
  by (auto simp: os_replace_def update_conv' split: option.splits node.splits if_splits)

lemma download_attempt_unfold:
  assumes out: "respond w (length (requests w)) enc = Resp s chunks aborted"
      and s: "s \<noteq> 403" "s \<noteq> 404" "\<not> (400 \<le> s \<and> s < 600)"
      and o: "open_wb (w\<lparr>requests := requests w @ [enc]\<rparr>) (p @ ''.tmp'') = (Inr (), w2)"
  shows "lookup (stream_to w2 (p @ ''.tmp'') chunks) (p @ ''.tmp'') = Some (File (concat chunks))"
    and "download_attempt w enc p =
          (let w3 = stream_to w2 (p @ ''.tmp'') chunks
           in if aborted then (Failed, w3)
              else if concat chunks \<noteq> []
                   then (case os_replace w3 (p @ ''.tmp'') p of
                           (Inl e, w4) \<Rightarrow> (Finished (Inl e), w4)
                         | (Inr u', w4) \<Rightarrow> (Finished (Inr True), w4))
                   else (case os_remove w3 (p @ ''.tmp'') of
                           (Inl e, w4) \<Rightarrow> (Finished (Inl e), w4)
                         | (Inr u', w4) \<Rightarrow> (Finished (Inr False), w4)))"
proof -
  let ?t = "p @ ''.tmp''"
  from open_wb_cases[OF o] have "lookup w2 ?t = Some (File [])"
    by (auto simp: update_conv')
  from lookup_stream_to[OF this, of chunks]
  show l3: "lookup (stream_to w2 ?t chunks) ?t = Some (File (concat chunks))" by simp
  then have "getsize (stream_to w2 ?t chunks) ?t = Inr (length (concat chunks))"
    by (simp add: getsize_def)
  with out s o show "download_attempt w enc p =
          (let w3 = stream_to w2 (p @ ''.tmp'') chunks
           in if aborted then (Failed, w3)
              else if concat chunks \<noteq> []
                   then (case os_replace w3 (p @ ''.tmp'') p of
                           (Inl e, w4) \<Rightarrow> (Finished (Inl e), w4)
                         | (Inr u', w4) \<Rightarrow> (Finished (Inr True), w4))
                   else (case os_remove w3 (p @ ''.tmp'') of
                           (Inl e, w4) \<Rightarrow> (Finished (Inl e), w4)
                         | (Inr u', w4) \<Rightarrow> (Finished (Inr False), w4)))"
    by (auto simp add: download_attempt_def Let_def)
qed

lemma download_attempt_early:
  assumes "download_attempt w enc p = (a, w')"
  shows "(w' = w\<lparr>requests := requests w @ [enc]\<rparr> \<and> a \<noteq> Finished (Inr True))
         \<or> (\<exists>s chunks aborted w2.
               respond w (length (requests w)) enc = Resp s chunks aborted
               \<and> s \<noteq> 403 \<and> s \<noteq> 404 \<and> \<not> (400 \<le> s \<and> s < 600)
               \<and> open_wb (w\<lparr>requests := requests w @ [enc]\<rparr>) (p @ ''.tmp'') = (Inr (), w2))"
proof -
  let ?w1 = "w\<lparr>requests := requests w @ [enc]\<rparr>"
  obtain ro w2 where o: "open_wb ?w1 (p @ ''.tmp'') = (ro, w2)"
    by (cases "open_wb ?w1 (p @ ''.tmp'')")
  from open_wb_cases[OF o] assms o show ?thesis
    by (auto simp: download_attempt_def Let_def split: outcome.splits if_splits)
qed

lemma tmp_neq: "p @ ''.tmp'' \<noteq> p"
  by simp

lemma keeps_download_attempt:
  assumes att: "download_attempt w enc p = (a, w')" and resp: "respond w = respond w0"
  shows "keeps (final_ok w0 enc p) w w'"
proof -
  let ?w1 = "w\<lparr>requests := requests w @ [enc]\<rparr>"
  let ?t = "p @ ''.tmp''"
  let ?K = "keeps (final_ok w0 enc p)"
  have k1: "?K w ?w1" by (rule keeps_same) simp_all
  from download_attempt_early[OF att] show ?thesis
  proof (elim disjE exE conjE)
    assume "w' = ?w1" with k1 show ?thesis by simp
  next
    fix s chunks aborted w2
    assume out: "respond w (length (requests w)) enc = Resp s chunks aborted"
       and s: "s \<noteq> 403" "s \<noteq> 404" "\<not> (400 \<le> s \<and> s < 600)"
       and o: "open_wb ?w1 ?t = (Inr (), w2)"
    note un = download_attempt_unfold[OF out s o]
    let ?w3 = "stream_to w2 ?t chunks"
    have k3: "?K w ?w3"
      using keeps_trans[OF k1 keeps_trans[OF keeps_open_wb[OF o tmp_neq] keeps_stream_to[OF tmp_neq]]] .
    show ?thesis
    proof (cases aborted)
      case True
      with att un(2) have "w' = ?w3" by (simp add: Let_def)
      with k3 show ?thesis by simp
    next
      case na: False
      show ?thesis
      proof (cases "concat chunks = []")
        case True
        with att un(2) na have "w' = snd (os_remove ?w3 ?t)"
          by (auto simp: Let_def split: prod.splits sum.splits)
        with keeps_os_remove[of ?w3 ?t "fst (os_remove ?w3 ?t)" "snd (os_remove ?w3 ?t)" w0 enc p]
        have "?K ?w3 w'" by simp
        with k3 show ?thesis by (rule keeps_trans)
      next
        case False
        obtain r4 w4 where rp: "os_replace ?w3 ?t p = (r4, w4)"
          by (cases "os_replace ?w3 ?t p")
        with False att un(2) na have w': "w' = w4"
          by (auto simp: Let_def split: prod.splits sum.splits)
        have "respond w0 (length (requests w)) enc = Resp s chunks False"
          using out na resp by simp
        with False s have "complete_body w0 enc (concat chunks)"
          unfolding complete_body_def by blast
        then have "\<And>c. lookup ?w3 ?t = Some (File c) \<Longrightarrow> complete_body w0 enc c"
          using un(1) by simp
        from keeps_os_replace[OF rp tmp_neq this] w'
        have "?K ?w3 w'" by simp
        with k3 show ?thesis by (rule keeps_trans)
      qed
    qed
  qed
qed

lemma attempt_success:
  assumes "download_attempt w enc p = (Finished (Inr True), w')"
  shows "\<exists>c. lookup w' p = Some (File c) \<and> c \<noteq> []"
proof -
  let ?w1 = "w\<lparr>requests := requests w @ [enc]\<rparr>"
  let ?t = "p @ ''.tmp''"
  from download_attempt_early[OF assms] show ?thesis
  proof (elim disjE exE conjE)
    assume "Finished (Inr True) \<noteq> Finished (Inr True)"
    then show ?thesis by simp
  next
    fix s chunks aborted w2
    assume out: "respond w (length (requests w)) enc = Resp s chunks aborted"
       and s: "s \<noteq> 403" "s \<noteq> 404" "\<not> (400 \<le> s \<and> s < 600)"
       and o: "open_wb ?w1 ?t = (Inr (), w2)"
    note un = download_attempt_unfold[OF out s o]
    let ?w3 = "stream_to w2 ?t chunks"
    from assms un(2) have ne: "concat chunks \<noteq> []" and "\<exists>u. os_replace ?w3 ?t p = (Inr u, w')"
      by (auto simp: Let_def split: if_splits prod.splits sum.splits)
    then obtain u where "os_replace ?w3 ?t p = (Inr u, w')" by blast
    from lookup_os_replace_ok[OF this] un(1) ne show ?thesis by auto
  qed
qed

lemma keeps_download_attempts:
  "download_attempts w enc p attempts = (r, w') \<Longrightarrow> respond w = respond w0 \<Longrightarrow>
   keeps (final_ok w0 enc p) w w'"
proof (induction attempts arbitrary: w)
  case Nil
  then show ?case by simp
next
  case (Cons a rest)
  obtain res w1 where att: "download_attempt w enc p = (res, w1)"
    by (cases "download_attempt w enc p")
  note k1 = keeps_download_attempt[OF att Cons.prems(2)]
  show ?case
  proof (cases res)
    case (Finished r0)
    with Cons.prems att have "w' = w1" by auto
    with k1 show ?thesis by simp
  next
    case Failed
    let ?w2 = "cleanup w1 a p"
    from Cons.prems att Failed have rec: "download_attempts ?w2 enc p rest = (r, w')" by simp
    have "respond ?w2 = respond w0"
      using download_attempt_frame(1)[OF att] cleanup_frame(1)[of w1 a p] Cons.prems(2)
      by (simp add: same_env_def)
    from Cons.IH[OF rec this] keeps_cleanup k1 show ?thesis
      using keeps_trans by blast
  qed
qed

lemma download_attempts_success:
  "download_attempts w enc p attempts = (Inr True, w') \<Longrightarrow>
   \<exists>c. lookup w' p = Some (File c) \<and> c \<noteq> []"
proof (induction attempts arbitrary: w)
  case Nil
  then show ?case by simp
next
  case (Cons a rest)
  obtain res w1 where att: "download_attempt w enc p = (res, w1)"
    by (cases "download_attempt w enc p")
  show ?case
  proof (cases res)
    case (Finished r0)
    with Cons.prems att attempt_success show ?thesis by auto
  next
    case Failed
    with Cons.prems att Cons.IH show ?thesis by auto
  qed
qed

lemma download_file_fresh:
  assumes "download_file w url p = (r, w')"
  shows "(r = Inr True \<and> w' = w \<and> path_exists w p \<and> (\<exists>n>0. getsize w p = Inr n))
       \<or> (\<exists>e. r = Inl e \<and> makedirs w (dirname p) = (Inl e, w'))
       \<or> (\<exists>w1. makedirs w (dirname p) = (Inr (), w1)
              \<and> download_attempts w1 (replace_all '' '' ''%20'' url) p [1..<MAX_RETRIES + 1] = (r, w'))"
proof (cases "path_exists w p \<and> (\<exists>n>0. getsize w p = Inr n)")
  case True
  with assms show ?thesis by (auto simp: download_file_def Let_def)
next
  case False
  let ?enc = "replace_all '' '' ''%20'' url"
  let ?fresh = "case makedirs w (dirname p) of
                  (Inl e, w1) \<Rightarrow> (Inl e, w1)
                | (Inr u, w1) \<Rightarrow> download_attempts w1 ?enc p [1..<MAX_RETRIES + 1]"
  have fresh: "?fresh = (r, w')"
  proof (cases "path_exists w p")
    case no: False
    with assms show ?thesis by (simp add: download_file_def Let_def)
  next
    case yes: True
    then have "\<exists>n. getsize w p = Inr n"
      by (auto simp: getsize_def path_exists_def split: option.splits node.splits)
    then obtain n where n: "getsize w p = Inr n" ..
    with False yes have "n = 0" by auto
    with assms yes n show ?thesis by (simp add: download_file_def Let_def)
  qed
  then show ?thesis by (auto split: prod.splits sum.splits)
qed

lemma keeps_download_file:
  assumes "download_file w url p = (r, w')"
  shows "keeps (final_ok w (replace_all '' '' ''%20'' url) p) w w'"
proof -
  from download_file_fresh[OF assms] show ?thesis
  proof (elim disjE exE conjE)
    fix w1 assume mk: "makedirs w (dirname p) = (Inr (), w1)"
      and da: "download_attempts w1 (replace_all '' '' ''%20'' url) p [1..<MAX_RETRIES + 1] = (r, w')"
    have "respond w1 = respond w" using fs_only_makedirs[OF mk] by (simp add: fs_only_def same_env_def)
    from keeps_trans[OF keeps_makedirs[OF mk] keeps_download_attempts[OF da this]]
    show ?thesis .
  qed (auto intro: keeps_makedirs)
qed

lemma download_file_success:
  assumes "download_file w url p = (Inr True, w')"
  shows "path_exists w' p \<and> (\<exists>n>0. getsize w' p = Inr n)"
proof -
  from download_file_fresh[OF assms] show ?thesis
  proof (elim disjE exE conjE)
    fix w1 assume "download_attempts w1 (replace_all '' '' ''%20'' url) p [1..<MAX_RETRIES + 1] = (Inr True, w')"
    from download_attempts_success[OF this] show ?thesis
      by (auto simp: path_exists_def getsize_def)
  qed auto
qed

subsection \<open>The pair materializer\<close>

lemma download_file_same_env: "download_file w url p = (r, w') \<Longrightarrow> same_env w w'"
  using download_file_trace by blast

lemma try_extensions_same_env:
  "try_extensions w folder file_id video_url all exts = (r, w') \<Longrightarrow> same_env w w'"
proof (induction exts arbitrary: w)
  case Nil
  then show ?case by simp
next
  case (Cons ext rest)
  let ?url = "if ext = hd all then video_url else base_video_url video_url @ ''.'' @ ext"
  let ?path = "path_join folder (file_id @ ''.'' @ ext)"
  obtain r1 w1 where d: "download_file w ?url ?path = (r1, w1)"
    by (cases "download_file w ?url ?path")
  note e1 = download_file_same_env[OF d]
  from Cons.prems d have "w' = w1 \<or> try_extensions w1 folder file_id video_url all rest = (r, w')"
    by (auto simp: Let_def split: sum.splits if_splits)
  with e1 Cons.IH show ?case using same_env_trans by blast
qed

lemma try_extensions_result:
  "try_extensions w folder file_id video_url all exts = (Inr (vid_ok, actual), w') \<Longrightarrow>
   (if vid_ok
    then \<exists>ext \<in> set exts. actual = Some (path_join folder (file_id @ ''.'' @ ext))
           \<and> path_exists w' (path_join folder (file_id @ ''.'' @ ext))
           \<and> (\<exists>n>0. getsize w' (path_join folder (file_id @ ''.'' @ ext)) = Inr n)
    else actual = None)"
proof (induction exts arbitrary: w)
  case Nil
  then show ?case by simp
next
  case (Cons ext rest)
  let ?url = "if ext = hd all then video_url else base_video_url video_url @ ''.'' @ ext"
  let ?path = "path_join folder (file_id @ ''.'' @ ext)"
  obtain r1 w1 where d: "download_file w ?url ?path = (r1, w1)"
    by (cases "download_file w ?url ?path")
  show ?case
  proof (cases "r1 = Inr True")
    case True
    with Cons.prems d have "vid_ok" "actual = Some ?path" "w' = w1"
      by (auto simp: Let_def)
    with download_file_success[of w ?url ?path w1] d True show ?thesis by auto
  next
    case False
    with Cons.prems d have "try_extensions w1 folder file_id video_url all rest = (Inr (vid_ok, actual), w')"
      by (auto simp: Let_def split: sum.splits if_splits)
    from Cons.IH[OF this] show ?thesis by (auto split: if_splits)
  qed
qed

lemma map_of_filter_key:
  "\<not> Q k \<Longrightarrow> map_of (filter (\<lambda>(k, n). Q k) ns) k = None"
  by (induction ns) auto

lemma rmtree_removes:
  assumes "\<forall>q. inside folder q \<longrightarrow> q \<notin> locked w \<and> q \<notin> unlistable w"
  shows "\<not> path_exists (rmtree_ignore w folder) folder"
proof -
  let ?R = "\<lambda>k. k \<in> locked w
               \<or> list_ex (\<lambda>(d, n). d \<in> unlistable w \<and> inside folder d \<and> inside d k \<and> k \<noteq> d)
                    (nodes w)"
  let ?Q = "\<lambda>k. \<not> inside folder k \<or> list_ex (\<lambda>(k', n'). inside k k' \<and> ?R k') (nodes w)"
  have "\<not> ?Q folder"
    using assms by (auto simp: list_ex_iff inside_def)
  from map_of_filter_key[of ?Q folder "nodes w"] this
  show ?thesis
    by (simp add: rmtree_ignore_def path_exists_def Let_def)
qed

lemma dehydrate_nodes [simp]:
  "nodes (dehydrate_single_file p w) = nodes w" "requests (dehydrate_single_file p w) = requests w"
  "lookup (dehydrate_single_file p w) q = lookup w q"
  "path_exists (dehydrate_single_file p w) q = path_exists w q"
  "getsize (dehydrate_single_file p w) q = getsize w q"
  "dir_size (dehydrate_single_file p w) = dir_size w"
  by (auto simp: dehydrate_single_file_def lookup_def path_exists_def getsize_def
           split: option.splits node.splits)

lemma download_pair_returns:
  assumes "download_pair w pdf_url video_url base_dir exts_opt dehy = (Inr (pdf_ok, vid_ok, grp, file_id), w')"
  shows "\<exists>w1 w2 w3 pdf_ok' actual.
           parse_url_info pdf_url = Inr (grp, file_id)
         \<and> makedirs w (locate_folder w base_dir grp file_id) = (Inr (), w1)
         \<and> download_file w1 pdf_url
               (path_join (locate_folder w base_dir grp file_id) (file_id @ ''.pdf'')) = (Inr pdf_ok', w2)
         \<and> try_extensions w2 (locate_folder w base_dir grp file_id) file_id video_url
               (case exts_opt of None \<Rightarrow> DEFAULT_VIDEO_EXTENSIONS | Some es \<Rightarrow> es)
               (case exts_opt of None \<Rightarrow> DEFAULT_VIDEO_EXTENSIONS | Some es \<Rightarrow> es)
             = (Inr (vid_ok, actual), w3)
         \<and> (if vid_ok
             then pdf_ok = pdf_ok' \<and> nodes w' = nodes w3 \<and> requests w' = requests w3
                  \<and> dir_size w' = dir_size w3
             else \<not> pdf_ok \<and> w' = rmtree_ignore w3 (locate_folder w base_dir grp file_id))"
  using assms
  by (auto simp: download_pair_def Let_def
           split: sum.splits prod.splits if_splits option.splits)

lemma makedirs_existing:
  assumes "isdir w name"
      and "fst (makedirs_split name) = [] \<or> path_exists w (fst (makedirs_split name))"
  shows "makedirs w name = (Inr (), w)"
proof -
  have "mkdir_exist_ok w name = (Inr (), w)"
    using assms(1)
    by (auto simp: mkdir_exist_ok_def os_mkdir_def isdir_def path_exists_def)
  with assms(2) show ?thesis
    by (subst makedirs.simps) (auto simp: Let_def)
qed

lemma download_file_present:
  "lookup w p = Some (File c) \<Longrightarrow> c \<noteq> [] \<Longrightarrow> download_file w url p = (Inr True, w)"
  by (simp add: download_file_def Let_def path_exists_def getsize_def)

lemma try_extensions_rest:
  "first \<notin> set rest \<Longrightarrow>
   try_extensions w folder file_id video_url (first # others) rest
     = probe_rest w folder file_id (base_video_url video_url) rest"
proof (induction rest arbitrary: w)
  case Nil
  show ?case by simp
next
  case (Cons ext rest)
  then have ne: "ext \<noteq> first" and nin: "first \<notin> set rest" by auto
  show ?case
    using Cons.IH[OF nin] ne
    by (auto simp: Let_def split: prod.splits sum.splits)
qed

lemma download_file_fs_error:
  assumes "download_file w url p = (Inl e, w')"
  shows "fs_error e"
proof -
  from download_file_trace[OF assms] obtain m where
    "(m = 0 \<and> ((Inl e = (Inr True :: exn + bool) \<and> w' = w) \<or> (\<exists>e'. Inl e = (Inl e' :: exn + bool) \<and> fs_error e')))
     \<or> (0 < m \<and> verdict (tmp_ok w p)
                   (respond w (length (requests w) + (m - 1)) (replace_all '' '' ''%20'' url)) (Inl e))
     \<or> (m = MAX_RETRIES \<and> Inl e = (Inr False :: exn + bool)
         \<and> (\<forall>k<m. retryable (respond w (length (requests w) + k)
                                (replace_all '' '' ''%20'' url))))"
    by blast
  then show ?thesis
    by (elim disjE conjE) (auto simp: verdict_def split: outcome.splits if_splits)
qed

lemma try_extensions_fs_error:
  "try_extensions w folder file_id video_url all exts = (Inl e, w') \<Longrightarrow> fs_error e"
proof (induction exts arbitrary: w)
  case Nil
  then show ?case by simp
next
  case (Cons ext rest)
  let ?url = "if ext = hd all then video_url else base_video_url video_url @ ''.'' @ ext"
  let ?path = "path_join folder (file_id @ ''.'' @ ext)"
  obtain r1 w1 where d: "download_file w ?url ?path = (r1, w1)"
    by (cases "download_file w ?url ?path")
  from download_file_fs_error[of w ?url ?path e w1] d have fe: "r1 = Inl e \<Longrightarrow> fs_error e"
    by simp
  from Cons.prems d have "r1 = Inl e \<or> try_extensions w1 folder file_id video_url all rest = (Inl e, w')"
    by (auto simp: Let_def split: sum.splits if_splits)
  with fe Cons.IH show ?case by blast
qed

lemma try_extensions_results:
  "try_extensions w folder file_id video_url all exts = (r, w') \<Longrightarrow>
   (case r of
      Inl e \<Rightarrow> Inl e \<in> set (probe_results w folder file_id video_url all exts)
    | Inr (vid_ok, actual) \<Rightarrow>
        if vid_ok then Inr True \<in> set (probe_results w folder file_id video_url all exts)
        else actual = None
             \<and> probe_results w folder file_id video_url all exts = replicate (length exts) (Inr False))"
proof (induction exts arbitrary: w)
  case Nil
  then show ?case by auto
next
  case (Cons ext rest)
  let ?url = "if ext = hd all then video_url else base_video_url video_url @ ''.'' @ ext"
  let ?path = "path_join folder (file_id @ ''.'' @ ext)"
  obtain r1 w1 where d: "download_file w ?url ?path = (r1, w1)"
    by (cases "download_file w ?url ?path")
  show ?case
  proof (cases "r1 = Inr False")
    case True
    with Cons.prems d have "try_extensions w1 folder file_id video_url all rest = (r, w')"
      by (simp add: Let_def)
    from Cons.IH[OF this] d True show ?thesis
      by (auto simp: Let_def split: sum.splits prod.splits if_splits)
  next
    case False
    with Cons.prems d show ?thesis
      by (cases r1) (auto simp: Let_def split: sum.splits prod.splits if_splits bool.splits)
  qed
qed

lemma try_extensions_raises:
  assumes "Inl e \<in> set (probe_results w folder file_id video_url all exts)"
  shows "fst (try_extensions w folder file_id video_url all exts) = Inl e"
  using assms
proof (induction exts arbitrary: w)
  case Nil
  then show ?case by simp
next
  case (Cons ext rest)
  let ?url = "if ext = hd all then video_url else base_video_url video_url @ ''.'' @ ext"
  let ?path = "path_join folder (file_id @ ''.'' @ ext)"
  obtain r1 w1 where d: "download_file w ?url ?path = (r1, w1)"
    by (cases "download_file w ?url ?path")
  show ?case
  proof (cases "r1 = Inr False")
    case True
    with Cons.prems d have "Inl e \<in> set (probe_results w1 folder file_id video_url all rest)"
      by (simp add: Let_def)
    from Cons.IH[OF this] d True show ?thesis by (simp add: Let_def)
  next
    case False
    with Cons.prems d show ?thesis
      by (cases r1) (auto simp: Let_def split: sum.splits prod.splits if_splits bool.splits)
  qed
qed

lemma try_extensions_none:
  assumes "Inr True \<notin> set (probe_results w folder file_id video_url all exts)"
      and "\<forall>e. Inl e \<notin> set (probe_results w folder file_id video_url all exts)"
  shows "fst (try_extensions w folder file_id video_url all exts) = Inr (False, None)"
proof -
  obtain r w' where t: "try_extensions w folder file_id video_url all exts = (r, w')"
    by (cases "try_extensions w folder file_id video_url all exts")
  from try_extensions_results[OF t] assms show ?thesis
    by (auto simp: t split: sum.splits if_splits)
qed

lemma try_extensions_success:
  "try_extensions w folder file_id video_url all exts = (Inr (True, actual), w') \<Longrightarrow>
   \<exists>pre ext post w1.
      exts = pre @ ext # post
    \<and> try_extensions w folder file_id video_url all pre = (Inr (False, None), w1)
    \<and> download_file w1 (if ext = hd all then video_url else base_video_url video_url @ ''.'' @ ext)
         (path_join folder (file_id @ ''.'' @ ext)) = (Inr True, w')
    \<and> actual = Some (path_join folder (file_id @ ''.'' @ ext))"
proof (induction exts arbitrary: w)
  case Nil
  then show ?case by simp
next
  case (Cons ext rest)
  let ?url = "if ext = hd all then video_url else base_video_url video_url @ ''.'' @ ext"
  let ?path = "path_join folder (file_id @ ''.'' @ ext)"
  obtain r1 w1 where d: "download_file w ?url ?path = (r1, w1)"
    by (cases "download_file w ?url ?path")
  show ?case
  proof (cases "r1 = Inr True")
    case True
    with Cons.prems d have "actual = Some ?path" "w' = w1"
      by (auto simp: Let_def)
    with d True show ?thesis
      by (intro exI[of _ "[]"] exI[of _ ext] exI[of _ rest] exI[of _ w]) simp
  next
    case False
    with Cons.prems d have r1: "r1 = Inr False"
      and t: "try_extensions w1 folder file_id video_url all rest = (Inr (True, actual), w')"
      by (auto simp: Let_def split: sum.splits if_splits)
    from Cons.IH[OF t] obtain pre e post w2 where
      p: "rest = pre @ e # post"
      "try_extensions w1 folder file_id video_url all pre = (Inr (False, None), w2)"
      "download_file w2 (if e = hd all then video_url else base_video_url video_url @ ''.'' @ e)
         (path_join folder (file_id @ ''.'' @ e)) = (Inr True, w')"
      "actual = Some (path_join folder (file_id @ ''.'' @ e))"
      by blast
    from p(2) d r1 have "try_extensions w folder file_id video_url all (ext # pre) = (Inr (False, None), w2)"
      by (simp add: Let_def)
    with p show ?thesis
      by (intro exI[of _ "ext # pre"] exI[of _ e] exI[of _ post] exI[of _ w2]) simp
  qed
qed

lemma rfind_char_absent: "c \<notin> set s \<Longrightarrow> rfind_char c s = -1"
proof -
  assume "c \<notin> set s"
  then have "filter (\<lambda>i. s ! i = c) (rev [0..<length s]) = []"
    by (auto simp: filter_empty_conv)
  then show ?thesis by (simp add: rfind_char_def)
qed

lemma rfind_char_lower: "-1 \<le> rfind_char c s"
  by (simp add: rfind_char_def split: list.splits)

lemma base_video_url_strips:
  assumes "snd (splitext video_url) \<noteq> []"
  shows "base_video_url video_url = strip_extension video_url"
proof -
  let ?dot = "rfind_char CHR ''.'' video_url" and ?sep = "rfind_char CHR ''/'' video_url"
  from assms have c: "?dot > ?sep"
    and f: "splitext video_url = (take (nat ?dot) video_url, drop (nat ?dot) video_url)"
    by (auto simp: splitext_def Let_def split: if_splits)
  from c rfind_char_lower[of "CHR ''/''" video_url] have "?dot \<noteq> -1" by linarith
  with rfind_char_absent[of "CHR ''.''" video_url] have "CHR ''.'' \<in> set video_url" by blast
  with f show ?thesis by (simp add: base_video_url_def strip_extension_def)
qed

text \<open>
  Where the first extension of the priority list does not occur in it again and the
  companion URL has an extension, the loop of \<open>download_pair\<close> is the probing of the
  specification; so it is for the example of the specification.
\<close>

lemma try_extensions_follows_spec:
  assumes "hd exts \<notin> set (tl exts)" and "snd (splitext video_url) \<noteq> []"
  shows "try_extensions w folder file_id video_url exts exts
           = probe_in_order w folder file_id video_url exts"
proof (cases exts)
  case Nil
  then show ?thesis by (simp add: probe_in_order_def)
next
  case (Cons first rest)
  with assms(1) have "first \<notin> set rest" by simp
  from try_extensions_rest[OF this] Cons base_video_url_strips[OF assms(2)] show ?thesis
    by (auto simp: probe_in_order_def Let_def split: prod.splits sum.splits)
qed

lemma probing_example:
  "fst (download_pair W_item ''https://x/y/item.pdf'' ''https://x/y/item.mov'' ''out''
            (Some [''mov'', ''mp4'', ''jpg'']) False) = Inr (True, True, ''x'', ''item'')
   \<and> requests (snd (download_pair W_item ''https://x/y/item.pdf'' ''https://x/y/item.mov'' ''out''
                       (Some [''mov'', ''mp4'', ''jpg'']) False))
       = [''https://x/y/item.pdf'', ''https://x/y/item.mov'', ''https://x/y/item.mp4'']
   \<and> map fst (nodes (snd (download_pair W_item ''https://x/y/item.pdf'' ''https://x/y/item.mov''
                              ''out'' (Some [''mov'', ''mp4'', ''jpg'']) False)))
       = [''out'', ''out/x'', ''out/x/item'', ''out/x/item/item.pdf'', ''out/x/item/item.mp4'']"
  by code_simp

section \<open>What ends a fetch\<close>

text \<open>
  Claim C6, as amended. A fetch issues at most \<open>MAX_RETRIES\<close> requests, all for the
  encoded URL. If the answer to one of them is 403 or 404, it is the last request and the
  fetch returns \<open>False\<close>. If it is an answer without an error status (a status outside
  400..599) whose body is complete and empty, it is the last request and the fetch does
  not succeed: it returns \<open>False\<close> when the temporary path is writable. Every request
  that is followed by another one was answered by a transport error, by an error status
  other than 403 and 404, or by a stream that broke off. Conversely every such answer is
  followed by another request while fewer than \<open>MAX_RETRIES\<close> have been issued, unless it
  is a stream that broke off and the temporary file could not be opened, in which case
  the error of \<open>open\<close> leaves the function; and when the last of \<open>MAX_RETRIES\<close> requests
  is answered in this way, the fetch returns \<open>False\<close>.
\<close>

theorem download_file_retry_policy:
  assumes "download_file w url p = (r, w')"
  shows "\<exists>m. m \<le> MAX_RETRIES
           \<and> requests w' = requests w @ replicate m (replace_all '' '' ''%20'' url)
           \<and> (\<forall>k s chunks aborted.
                 k < m \<and> respond w (length (requests w) + k) (replace_all '' '' ''%20'' url)
                           = Resp s chunks aborted
                 \<longrightarrow> ((s = 403 \<or> s = 404) \<longrightarrow> m = k + 1 \<and> r = Inr False)
                   \<and> (\<not> (400 \<le> s \<and> s < 600) \<and> \<not> aborted \<and> concat chunks = []
                        \<longrightarrow> m = k + 1 \<and> r \<noteq> Inr True \<and> (tmp_ok w p \<longrightarrow> r = Inr False)))
           \<and> (\<forall>k. k + 1 < m \<longrightarrow>
                 retryable (respond w (length (requests w) + k) (replace_all '' '' ''%20'' url)))
           \<and> (\<forall>k. k < m \<and> k + 1 < MAX_RETRIES
                     \<and> retryable (respond w (length (requests w) + k) (replace_all '' '' ''%20'' url))
                 \<longrightarrow> k + 1 < m
                     \<or> (\<exists>s chunks e.
                           respond w (length (requests w) + k) (replace_all '' '' ''%20'' url)
                             = Resp s chunks True
                           \<and> \<not> (400 \<le> s \<and> s < 600) \<and> \<not> tmp_ok w p \<and> r = Inl e \<and> fs_error e))
           \<and> (m = MAX_RETRIES
                \<and> retryable (respond w (length (requests w) + (m - 1)) (replace_all '' '' ''%20'' url))
                \<and> tmp_ok w p
              \<longrightarrow> r = Inr False)"
proof -
  let ?enc = "replace_all '' '' ''%20'' url"
  let ?o = "\<lambda>k. respond w (length (requests w) + k) ?enc"
  from download_file_trace[OF assms] obtain m where
    m: "m \<le> MAX_RETRIES" "requests w' = requests w @ replicate m ?enc"
    and mid: "\<forall>k. k + 1 < m \<longrightarrow> retryable (?o k)"
    and fin: "(m = 0 \<and> ((r = Inr True \<and> w' = w) \<or> (\<exists>e. r = Inl e \<and> fs_error e)))
              \<or> (0 < m \<and> verdict (tmp_ok w p) (?o (m - 1)) r)
              \<or> (m = MAX_RETRIES \<and> r = Inr False \<and> (\<forall>k<m. retryable (?o k)))"
    by blast
  have last: "m = k + 1 \<and> verdict (tmp_ok w p) (?o k) r"
    if "k < m" "\<not> retryable (?o k)" for k
  proof -
    from that mid have "\<not> k + 1 < m" by blast
    with that have k: "m = k + 1" by auto
    from fin consider "m = 0" | "verdict (tmp_ok w p) (?o (m - 1)) r"
      | "\<forall>k<m. retryable (?o k)" by blast
    then show ?thesis
    proof cases
      case 1
      with that show ?thesis by simp
    next
      case 2
      with k show ?thesis by simp
    next
      case 3
      with that show ?thesis by blast
    qed
  qed
  have ends: "((s = 403 \<or> s = 404) \<longrightarrow> m = k + 1 \<and> r = Inr False)
        \<and> (\<not> (400 \<le> s \<and> s < 600) \<and> \<not> aborted \<and> concat chunks = []
              \<longrightarrow> m = k + 1 \<and> r \<noteq> Inr True \<and> (tmp_ok w p \<longrightarrow> r = Inr False))"
    if "k < m \<and> ?o k = Resp s chunks aborted" for k s chunks aborted
  proof (rule conjI; rule impI)
    assume s: "s = 403 \<or> s = 404"
    with that have "\<not> retryable (?o k)" by (auto simp: retryable_def)
    from last[OF _ this] that s show "m = k + 1 \<and> r = Inr False"
      by (auto simp: verdict_def)
  next
    assume s: "\<not> (400 \<le> s \<and> s < 600) \<and> \<not> aborted \<and> concat chunks = []"
    with that have "\<not> retryable (?o k)" by (auto simp: retryable_def)
    from last[OF _ this] that s
    show "m = k + 1 \<and> r \<noteq> Inr True \<and> (tmp_ok w p \<longrightarrow> r = Inr False)"
      by (auto simp: verdict_def split: sum.splits)
  qed
  have stuck: "(\<exists>s chunks e. ?o k = Resp s chunks True
                   \<and> \<not> (400 \<le> s \<and> s < 600) \<and> \<not> tmp_ok w p \<and> r = Inl e \<and> fs_error e)"
    if "retryable (?o k)" "verdict (tmp_ok w p) (?o k) r" for k
    using that
    by (cases "?o k"; cases r) (auto simp: retryable_def verdict_def split: if_splits)
  have again: "k + 1 < m
                 \<or> (\<exists>s chunks e. ?o k = Resp s chunks True
                       \<and> \<not> (400 \<le> s \<and> s < 600) \<and> \<not> tmp_ok w p \<and> r = Inl e \<and> fs_error e)"
    if "k < m \<and> k + 1 < MAX_RETRIES \<and> retryable (?o k)" for k
  proof (cases "k + 1 < m")
    case True
    then show ?thesis by simp
  next
    case False
    with that have k: "m = k + 1" by simp
    with that have "m \<noteq> MAX_RETRIES" "0 < m" by simp_all
    with fin have "verdict (tmp_ok w p) (?o (m - 1)) r" by blast
    with k have "verdict (tmp_ok w p) (?o k) r" by simp
    from stuck[OF _ this] that show ?thesis by blast
  qed
  have spent: "r = Inr False"
    if "m = MAX_RETRIES \<and> retryable (?o (m - 1)) \<and> tmp_ok w p"
  proof -
    from that have "0 < m" by (simp add: MAX_RETRIES_def)
    with fin consider "verdict (tmp_ok w p) (?o (m - 1)) r" | "r = Inr False" by blast
    then show ?thesis
    proof cases
      case 1
      from stuck[OF _ 1] that show ?thesis by blast
    next
      case 2
      then show ?thesis .
    qed
  qed
  show ?thesis
    by (intro exI[of _ m] conjI) (use m mid ends again spent in blast)+
qed

text \<open>
  A transport error followed by 404: two requests. The status 503 followed by an empty
  body: two requests. A transport that is down: three requests, with back-off delays of 2
  and 4 seconds, and \<open>False\<close>.
\<close>

theorem download_file_retry_policy_witness:
  "fst (download_file W_flaky ''https://h/a b.pdf'' ''out/g/a.pdf'') = Inr False
   \<and> requests (snd (download_file W_flaky ''https://h/a b.pdf'' ''out/g/a.pdf''))
       = [''https://h/a%20b.pdf'', ''https://h/a%20b.pdf'']
   \<and> retryable (respond W_flaky 0 ''https://h/a%20b.pdf'')
   \<and> respond W_flaky 1 ''https://h/a%20b.pdf'' = Resp 404 [] False
   \<and> fst (download_file W_hollow ''https://h/a b.pdf'' ''out/g/a.pdf'') = Inr False
   \<and> requests (snd (download_file W_hollow ''https://h/a b.pdf'' ''out/g/a.pdf''))
       = [''https://h/a%20b.pdf'', ''https://h/a%20b.pdf'']
   \<and> respond W_hollow 1 ''https://h/a%20b.pdf'' = Resp 200 [[], []] False
   \<and> tmp_ok W_hollow ''out/g/a.pdf''
   \<and> fst (download_file W_down ''https://h/a b.pdf'' ''out/g/a.pdf'') = Inr False
   \<and> requests (snd (download_file W_down ''https://h/a b.pdf'' ''out/g/a.pdf''))
       = [''https://h/a%20b.pdf'', ''https://h/a%20b.pdf'', ''https://h/a%20b.pdf'']
   \<and> slept (snd (download_file W_down ''https://h/a b.pdf'' ''out/g/a.pdf'')) = 6"
proof -
  let ?u = "''https://h/a b.pdf''" and ?p = "''out/g/a.pdf''" and ?e = "''https://h/a%20b.pdf''"
  have enc: "replace_all '' '' ''%20'' ?u = ?e" by code_simp
  have r0: "requests W_flaky = []" "requests W_hollow = []" "requests W_down = []" by code_simp+
  have o0: "retryable (respond W_flaky 0 ?e)" by code_simp
  have o1: "respond W_flaky 1 ?e = Resp 404 [] False" by code_simp
  have h1: "respond W_hollow 1 ?e = Resp 200 [[], []] False" by code_simp
  have t: "tmp_ok W_hollow ?p" by code_simp
  have td: "tmp_ok W_down ?p" by code_simp
  have rt: "retryable (respond W_down k ?e)" for k by (simp add: W_down_def W_empty_def retryable_def)
  have q1: "requests (snd (download_file W_flaky ?u ?p)) = [?e, ?e]" by code_simp
  have q2: "requests (snd (download_file W_hollow ?u ?p)) = [?e, ?e]" by code_simp
  have q3: "requests (snd (download_file W_down ?u ?p)) = [?e, ?e, ?e]" by code_simp
  have s3: "slept (snd (download_file W_down ?u ?p)) = 6" by code_simp
  have len: "ys = [] @ replicate m ?e \<Longrightarrow> ys = xs \<Longrightarrow> m = length xs" for m xs ys by auto
  have A: "fst (download_file W_flaky ?u ?p) = Inr False"
  proof -
    from download_file_retry_policy[OF surjective_pairing, of W_flaky ?u ?p, unfolded enc]
    show ?thesis
    proof (elim exE conjE)
      fix m
      assume m: "requests (snd (download_file W_flaky ?u ?p)) = requests W_flaky @ replicate m ?e"
        and c: "\<forall>k s chunks aborted.
                 k < m \<and> respond W_flaky (length (requests W_flaky) + k) ?e = Resp s chunks aborted
                 \<longrightarrow> ((s = 403 \<or> s = 404) \<longrightarrow> m = k + 1 \<and> fst (download_file W_flaky ?u ?p) = Inr False)
                   \<and> (\<not> (400 \<le> s \<and> s < 600) \<and> \<not> aborted \<and> concat chunks = []
                        \<longrightarrow> m = k + 1 \<and> fst (download_file W_flaky ?u ?p) \<noteq> Inr True
                            \<and> (tmp_ok W_flaky ?p \<longrightarrow> fst (download_file W_flaky ?u ?p) = Inr False))"
      from len[OF m[unfolded r0] q1] have "m = 2" by simp
      with c[rule_format, of 1 404 "[]" False] o1 r0 show ?thesis by simp
    qed
  qed
  have B: "fst (download_file W_hollow ?u ?p) = Inr False"
  proof -
    from download_file_retry_policy[OF surjective_pairing, of W_hollow ?u ?p, unfolded enc]
    show ?thesis
    proof (elim exE conjE)
      fix m
      assume m: "requests (snd (download_file W_hollow ?u ?p)) = requests W_hollow @ replicate m ?e"
        and c: "\<forall>k s chunks aborted.
                 k < m \<and> respond W_hollow (length (requests W_hollow) + k) ?e = Resp s chunks aborted
                 \<longrightarrow> ((s = 403 \<or> s = 404) \<longrightarrow> m = k + 1 \<and> fst (download_file W_hollow ?u ?p) = Inr False)
                   \<and> (\<not> (400 \<le> s \<and> s < 600) \<and> \<not> aborted \<and> concat chunks = []
                        \<longrightarrow> m = k + 1 \<and> fst (download_file W_hollow ?u ?p) \<noteq> Inr True
                            \<and> (tmp_ok W_hollow ?p \<longrightarrow> fst (download_file W_hollow ?u ?p) = Inr False))"
      from len[OF m[unfolded r0] q2] have "m = 2" by simp
      with c[rule_format, of 1 200 "[[], []]" False] h1 r0 t show ?thesis by simp
    qed
  qed
  have C: "fst (download_file W_down ?u ?p) = Inr False"
  proof -
    from download_file_retry_policy[OF surjective_pairing, of W_down ?u ?p, unfolded enc]
    show ?thesis
    proof (elim exE conjE)
      fix m
      assume m: "requests (snd (download_file W_down ?u ?p)) = requests W_down @ replicate m ?e"
        and c: "m = MAX_RETRIES
                \<and> retryable (respond W_down (length (requests W_down) + (m - 1)) ?e)
                \<and> tmp_ok W_down ?p
              \<longrightarrow> fst (download_file W_down ?u ?p) = Inr False"
      from len[OF m[unfolded r0] q3] have "m = 3" by simp
      with c rt td r0 show ?thesis by (simp add: MAX_RETRIES_def)
    qed
  qed
  from A B C q1 q2 q3 s3 o0 o1 h1 t show ?thesis by simp
qed

text \<open>
  The claim as stated fails in two places. An empty 2xx body does not make the fetch
  return failure when the temporary path cannot be opened: the error of \<open>open\<close> is
  raised instead. And a status outside 2xx that is no error status is not retried: the
  answer 300 with a body is stored and the fetch returns \<open>True\<close>.
\<close>

theorem download_file_empty_body_raises:
  "respond W_tmpdir_hollow 0 ''https://h/a.pdf'' = Resp 200 [] False
   \<and> fst (download_file W_tmpdir_hollow ''https://h/a.pdf'' ''out/a.pdf'') = Inl IsADirectoryError
   \<and> requests (snd (download_file W_tmpdir_hollow ''https://h/a.pdf'' ''out/a.pdf''))
       = [''https://h/a.pdf'']
   \<and> respond W_choices 0 ''https://h/a.pdf'' = Resp 300 [''<html>''] False
   \<and> fst (download_file W_choices ''https://h/a.pdf'' ''out/a.pdf'') = Inr True
   \<and> requests (snd (download_file W_choices ''https://h/a.pdf'' ''out/a.pdf'')) = [''https://h/a.pdf'']
   \<and> lookup (snd (download_file W_choices ''https://h/a.pdf'' ''out/a.pdf'')) ''out/a.pdf''
       = Some (File ''<html>'')"
  by code_simp

text \<open>
  Claim C8, as amended. No \<open>requests.RequestException\<close> leaves \<open>download_file\<close>: an
  exception that does is an error of a file system operation (\<open>os.makedirs\<close>, \<open>open\<close>,
  \<open>os.replace\<close>, \<open>os.remove\<close> of the empty temporary file), which the function does
  not catch.
\<close>

theorem download_file_raises_only_os_errors:
  "download_file w url p = (Inl e, w') \<Longrightarrow> fs_error e \<and> e \<noteq> RequestException"
proof -
  assume a: "download_file w url p = (Inl e, w')"
  from download_file_trace[OF a] obtain m where
    "(m = 0 \<and> ((Inl e = (Inr True :: exn + bool) \<and> w' = w) \<or> (\<exists>e'. Inl e = (Inl e' :: exn + bool) \<and> fs_error e')))
     \<or> (0 < m \<and> verdict (tmp_ok w p)
                   (respond w (length (requests w) + (m - 1)) (replace_all '' '' ''%20'' url)) (Inl e))
     \<or> (m = MAX_RETRIES \<and> Inl e = (Inr False :: exn + bool)
         \<and> (\<forall>k<m. retryable (respond w (length (requests w) + k)
                                (replace_all '' '' ''%20'' url))))"
    by blast
  then have "fs_error e"
    by (elim disjE conjE) (auto simp: verdict_def split: outcome.splits if_splits)
  then show ?thesis by (auto simp: fs_error_def)
qed

theorem download_file_raises_only_os_errors_witness:
  "download_file W_blocked ''https://h/a.pdf'' ''out/a.pdf'' = (Inl FileExistsError, W_blocked)
   \<and> fs_error FileExistsError \<and> FileExistsError \<noteq> RequestException"
proof -
  have h: "download_file W_blocked ''https://h/a.pdf'' ''out/a.pdf'' = (Inl FileExistsError, W_blocked)"
    by (simp add: download_file_def W_blocked_def W_empty_def Let_def path_exists_def lookup_def
          dirname_def path_split_def rfind_char_def makedirs.simps makedirs_split_def
          mkdir_exist_ok_def os_mkdir_def isdir_def rstrip_slash_def)
  from download_file_raises_only_os_errors[OF h] h show ?thesis by simp
qed

text \<open>
  The claim as stated fails: when the directory of the local path is a regular file,
  \<open>os.makedirs\<close> raises \<open>FileExistsError\<close> and the fetch returns no boolean; when the
  temporary path is a directory, \<open>open\<close> raises \<open>IsADirectoryError\<close> after the first
  request has been answered.
\<close>

theorem download_file_raises_on_blocked_directory:
  "fst (download_file W_blocked ''https://h/a.pdf'' ''out/a.pdf'') = Inl FileExistsError
   \<and> fst (download_file W_tmpdir ''https://h/a.pdf'' ''out/a.pdf'') = Inl IsADirectoryError
   \<and> requests (snd (download_file W_tmpdir ''https://h/a.pdf'' ''out/a.pdf'')) = [''https://h/a.pdf'']"
  by code_simp

section \<open>Atomic visibility\<close>

text \<open>
  Claim C5. Through a whole fetch, in every state the file system goes through and in
  the last one, a file at the final path is the file that was there before the fetch or
  holds the complete, non-empty body of an answer whose stream ended: the body is written
  to the temporary path \<open>local_path.tmp\<close> and moved to the final path afterwards. A
  fetch that succeeds leaves a non-empty file at the final path (or found the path in
  place).
\<close>

theorem download_file_atomic:
  assumes "download_file w url p = (r, w')"
  shows "\<exists>new. hist w' = new @ hist w
           \<and> list_all (final_ok w (replace_all '' '' ''%20'' url) p) new
           \<and> final_ok w (replace_all '' '' ''%20'' url) p (nodes w')
           \<and> (r = Inr True \<longrightarrow> (\<exists>c. lookup w' p = Some (File c) \<and> c \<noteq> []) \<or> w' = w)"
proof -
  have init: "final_ok w (replace_all '' '' ''%20'' url) p (nodes w)"
    by (auto simp: final_ok_def split: option.splits node.splits)
  have succ: "r = Inr True \<longrightarrow> (\<exists>c. lookup w' p = Some (File c) \<and> c \<noteq> []) \<or> w' = w"
    using download_file_fresh[OF assms] download_attempts_success by blast
  from keeps_download_file[OF assms] init succ show ?thesis
    unfolding keeps_def by blast
qed

text \<open>
  With a stream that breaks off in each of the three attempts, the partial body shows at
  the temporary path only; no state has a file at the final path, and the temporary file
  is gone in the end.
\<close>

theorem download_file_atomic_witness:
  "fst (download_file W_abort ''https://h/a.pdf'' ''out/g/a.pdf'') = Inr False
   \<and> length (requests (snd (download_file W_abort ''https://h/a.pdf'' ''out/g/a.pdf''))) = 3
   \<and> list_all (\<lambda>ns. map_of ns ''out/g/a.pdf'' = None)
        (hist (snd (download_file W_abort ''https://h/a.pdf'' ''out/g/a.pdf'')))
   \<and> list_ex (\<lambda>ns. map_of ns ''out/g/a.pdf.tmp'' = Some (File ''partial''))
        (hist (snd (download_file W_abort ''https://h/a.pdf'' ''out/g/a.pdf'')))
   \<and> lookup (snd (download_file W_abort ''https://h/a.pdf'' ''out/g/a.pdf'')) ''out/g/a.pdf.tmp'' = None
   \<and> (\<exists>new. hist (snd (download_file W_abort ''https://h/a.pdf'' ''out/g/a.pdf''))
               = new @ hist W_abort
          \<and> list_all (final_ok W_abort ''https://h/a.pdf'' ''out/g/a.pdf'') new)
   \<and> fst (download_file W_serve ''https://h/a.pdf'' ''out/g/a.pdf'') = Inr True
   \<and> lookup (snd (download_file W_serve ''https://h/a.pdf'' ''out/g/a.pdf'')) ''out/g/a.pdf''
       = Some (File ''%PDF-1.4'')
   \<and> list_all (\<lambda>ns. map_of ns ''out/g/a.pdf'' \<in> {None, Some (File ''%PDF-1.4'')})
        (hist (snd (download_file W_serve ''https://h/a.pdf'' ''out/g/a.pdf'')))"
proof -
  let ?u = "''https://h/a.pdf''" and ?p = "''out/g/a.pdf''"
  have enc: "replace_all '' '' ''%20'' ?u = ?u" by code_simp
  have 1: "fst (download_file W_abort ?u ?p) = Inr False" by code_simp
  have 2: "length (requests (snd (download_file W_abort ?u ?p))) = 3" by code_simp
  have 3: "list_all (\<lambda>ns. map_of ns ?p = None) (hist (snd (download_file W_abort ?u ?p)))"
    by code_simp
  have 4: "list_ex (\<lambda>ns. map_of ns ''out/g/a.pdf.tmp'' = Some (File ''partial''))
        (hist (snd (download_file W_abort ?u ?p)))" by code_simp
  have 5: "lookup (snd (download_file W_abort ?u ?p)) ''out/g/a.pdf.tmp'' = None" by code_simp
  have 6: "fst (download_file W_serve ?u ?p) = Inr True" by code_simp
  have 7: "lookup (snd (download_file W_serve ?u ?p)) ?p = Some (File ''%PDF-1.4'')" by code_simp
  have 8: "list_all (\<lambda>ns. map_of ns ?p \<in> {None, Some (File ''%PDF-1.4'')})
        (hist (snd (download_file W_serve ?u ?p)))" by code_simp
  from download_file_atomic[OF surjective_pairing, of W_abort ?u ?p]
  have 9: "\<exists>new. hist (snd (download_file W_abort ?u ?p)) = new @ hist W_abort
          \<and> list_all (final_ok W_abort ?u ?p) new"
    unfolding enc by blast
  from 1 2 3 4 5 6 7 8 9 show ?thesis by blast
qed

section \<open>Materializing a pair\<close>

text \<open>
  Claim C1, as amended. Let the identity of the pair be resolved, its folder made and
  the fetch of the primary document have returned, and let no fetch of the loop over the
  extensions return \<open>True\<close>. If every one of them returns \<open>False\<close>, \<open>download_pair\<close>
  returns \<open>(False, False, group, file_id)\<close>, also when the primary document was
  fetched, and the folder of the identity does not exist afterwards, provided that no
  path in the folder is locked against deletion or cannot be listed. If one of them
  raises, the exception (an error of the file system) leaves \<open>download_pair\<close> in the
  state the loop left, nothing being deleted. In both cases the dispatcher counts the
  pair as failed and leaves the ledger as it is.
\<close>

theorem download_pair_no_companion:
  assumes "parse_url_info pdf_url = Inr (grp, file_id)"
      and "folder = locate_folder w base_dir grp file_id"
      and "makedirs w folder = (Inr (), w1)"
      and "download_file w1 pdf_url (path_join folder (file_id @ ''.pdf'')) = (Inr pdf_ok, w2)"
      and "exts = (case exts_opt of None \<Rightarrow> DEFAULT_VIDEO_EXTENSIONS | Some es \<Rightarrow> es)"
      and "results = probe_results w2 folder file_id video_url exts exts"
      and "Inr True \<notin> set results"
      and "pair = download_pair w pdf_url video_url base_dir exts_opt dehy"
  shows "((\<forall>e. Inl e \<notin> set results)
          \<longrightarrow> fst pair = Inr (False, False, grp, file_id)
            \<and> ((\<forall>q. inside folder q \<longrightarrow> q \<notin> locked w \<and> q \<notin> unlistable w)
                 \<longrightarrow> \<not> path_exists (snd pair) folder))
       \<and> (\<forall>e. Inl e \<in> set results
            \<longrightarrow> fst pair = Inl e \<and> fs_error e
              \<and> snd pair = snd (try_extensions w2 folder file_id video_url exts exts))
       \<and> collect (fst pair) t = t\<lparr>failed := failed t + 1\<rparr>
       \<and> completed (collect (fst pair) t) = completed t"
proof -
  let ?te = "try_extensions w2 folder file_id video_url exts exts"
  obtain r w3 where te: "?te = (r, w3)" by (cases ?te)
  have dp: "pair = (case r of Inl e \<Rightarrow> (Inl e, w3)
                    | Inr (vid_ok, actual) \<Rightarrow>
                        if \<not> vid_ok then (Inr (False, False, grp, file_id), rmtree_ignore w3 folder)
                        else (Inr (pdf_ok, vid_ok, grp, file_id), snd pair))"
    using assms(1,3,4) te unfolding assms(8) assms(2) assms(5)
    by (auto simp: download_pair_def Let_def split: sum.splits prod.splits)
  have env: "same_env w w3"
    using fs_only_makedirs[OF assms(3)] download_file_same_env[OF assms(4)]
          try_extensions_same_env[OF te]
    by (auto simp: fs_only_def same_env_def)
  have A: "fst pair = Inr (False, False, grp, file_id)
            \<and> ((\<forall>q. inside folder q \<longrightarrow> q \<notin> locked w \<and> q \<notin> unlistable w)
                 \<longrightarrow> \<not> path_exists (snd pair) folder)"
    if "\<forall>e. Inl e \<notin> set results"
  proof -
    from try_extensions_none[of w2 folder file_id video_url exts exts] assms(6,7) that te
    have r: "r = Inr (False, None)" by simp
    with dp have p: "pair = (Inr (False, False, grp, file_id), rmtree_ignore w3 folder)" by simp
    have "\<not> path_exists (rmtree_ignore w3 folder) folder"
      if "\<forall>q. inside folder q \<longrightarrow> q \<notin> locked w \<and> q \<notin> unlistable w"
      using rmtree_removes[of folder w3] env that by (simp add: same_env_def)
    with p show ?thesis by simp
  qed
  have B: "fst pair = Inl e \<and> fs_error e \<and> snd pair = snd ?te" if "Inl e \<in> set results" for e
  proof -
    from try_extensions_raises[of e w2 folder file_id video_url exts exts] that assms(6) te
    have r: "r = Inl e" by simp
    with te try_extensions_fs_error have "fs_error e" by blast
    with r dp te show ?thesis by simp
  qed
  have C: "(\<exists>e. fst pair = Inl e) \<or> fst pair = Inr (False, False, grp, file_id)"
  proof (cases "\<exists>e. Inl e \<in> set results")
    case True
    with B show ?thesis by blast
  next
    case False
    with A show ?thesis by simp
  qed
  then have D: "collect (fst pair) t = t\<lparr>failed := failed t + 1\<rparr>"
    by (auto simp: collect_def)
  from A B D show ?thesis by simp
qed

text \<open>
  On an empty disk, with a transport that serves the primary document only: both
  probes return \<open>False\<close>, the folder is gone after the call, the pair is counted as
  failed and the ledger stays empty.
\<close>

theorem download_pair_no_companion_witness:
  "parse_url_info (fst pair_ABC) = Inr (''DataSet_1'', ''ABC'')
   \<and> locate_folder W_nocomp ''out'' ''DataSet_1'' ''ABC'' = ''out/DataSet_1/ABC''
   \<and> fst (makedirs W_nocomp ''out/DataSet_1/ABC'') = Inr ()
   \<and> fst (download_file (snd (makedirs W_nocomp ''out/DataSet_1/ABC'')) (fst pair_ABC)
             ''out/DataSet_1/ABC/ABC.pdf'') = Inr True
   \<and> probe_results
         (snd (download_file (snd (makedirs W_nocomp ''out/DataSet_1/ABC'')) (fst pair_ABC)
                 ''out/DataSet_1/ABC/ABC.pdf''))
         ''out/DataSet_1/ABC'' ''ABC'' (snd pair_ABC) [''mov'', ''mp4''] [''mov'', ''mp4'']
       = [Inr False, Inr False]
   \<and> fst (download_pair W_nocomp (fst pair_ABC) (snd pair_ABC) ''out'' (Some [''mov'', ''mp4'']) False)
       = Inr (False, False, ''DataSet_1'', ''ABC'')
   \<and> \<not> path_exists (snd (download_pair W_nocomp (fst pair_ABC) (snd pair_ABC) ''out''
                             (Some [''mov'', ''mp4'']) False)) ''out/DataSet_1/ABC''
   \<and> collect (fst (download_pair W_nocomp (fst pair_ABC) (snd pair_ABC) ''out''
                      (Some [''mov'', ''mp4'']) False))
         \<lparr>completed = {}, succeeded = 0, failed = 0\<rparr>
       = \<lparr>completed = {}, succeeded = 0, failed = 1\<rparr>
   \<and> requests (snd (download_pair W_nocomp (fst pair_ABC) (snd pair_ABC) ''out''
                       (Some [''mov'', ''mp4'']) False))
       = [''https://h/DataSet%201/ABC.pdf'', ''https://h/DataSet%201/ABC.mov'',
          ''https://h/DataSet%201/ABC.mp4'']"
proof -
  let ?f = "''out/DataSet_1/ABC''"
  let ?mk = "makedirs W_nocomp ?f"
  let ?df = "download_file (snd ?mk) (fst pair_ABC) ''out/DataSet_1/ABC/ABC.pdf''"
  let ?rs = "probe_results (snd ?df) ?f ''ABC'' (snd pair_ABC) [''mov'', ''mp4''] [''mov'', ''mp4'']"
  let ?d = "download_pair W_nocomp (fst pair_ABC) (snd pair_ABC) ''out'' (Some [''mov'', ''mp4'']) False"
  let ?t = "\<lparr>completed = {}, succeeded = 0, failed = 0\<rparr>"
  have p: "parse_url_info (fst pair_ABC) = Inr (''DataSet_1'', ''ABC'')" by code_simp
  have lf: "?f = locate_folder W_nocomp ''out'' ''DataSet_1'' ''ABC''" by code_simp
  have mk: "fst ?mk = Inr ()" by code_simp
  then have mk': "?mk = (Inr (), snd ?mk)" by (metis prod.collapse)
  have df: "fst ?df = Inr True" by code_simp
  then have df': "download_file (snd ?mk) (fst pair_ABC) (path_join ?f (''ABC'' @ ''.pdf'')) = (Inr True, snd ?df)"
    by (simp add: path_join_def) (metis prod.collapse)
  have ex: "[''mov'', ''mp4''] = (case Some [''mov'', ''mp4''] of None \<Rightarrow> DEFAULT_VIDEO_EXTENSIONS | Some es \<Rightarrow> es)"
    by simp
  have rs: "?rs = [Inr False, Inr False]" by code_simp
  then have none: "Inr True \<notin> set ?rs" and noexn: "\<forall>e. Inl e \<notin> set ?rs" by simp_all
  have lk: "\<forall>q. inside ?f q \<longrightarrow> q \<notin> locked W_nocomp \<and> q \<notin> unlistable W_nocomp"
    by (simp add: W_nocomp_def W_empty_def)
  have rq: "requests (snd ?d) = [''https://h/DataSet%201/ABC.pdf'', ''https://h/DataSet%201/ABC.mov'',
          ''https://h/DataSet%201/ABC.mp4'']" by code_simp
  note T = download_pair_no_companion[OF p lf mk' df' ex refl none refl, of False ?t]
  from T noexn lk have "fst ?d = Inr (False, False, ''DataSet_1'', ''ABC'')"
    and "\<not> path_exists (snd ?d) ?f"
    and "collect (fst ?d) ?t = ?t\<lparr>failed := failed ?t + 1\<rparr>"
    by blast+
  with p lf mk df rs rq show ?thesis by simp
qed

text \<open>
  The claim as stated fails where the deletion fails, and where a fetch raises.
  \<open>shutil.rmtree\<close> is called with \<open>ignore_errors=True\<close>, and a folder that holds a
  file which cannot be deleted is still on disk after the call. When the temporary path
  of the first companion is a directory, \<open>open\<close> raises \<open>IsADirectoryError\<close>, which
  leaves \<open>download_pair\<close>: no result is reported, and the folder stays with the primary
  document in it.
\<close>

theorem download_pair_folder_survives:
  "fst (download_pair W_locked (fst pair_ABC) (snd pair_ABC) ''out'' (Some [''mov'', ''mp4'']) False)
     = Inr (False, False, ''DataSet_1'', ''ABC'')
   \<and> path_exists (snd (download_pair W_locked (fst pair_ABC) (snd pair_ABC) ''out''
                           (Some [''mov'', ''mp4'']) False)) ''out/DataSet_1/ABC''
   \<and> fst (download_pair W_vid_tmpdir (fst pair_ABC) (snd pair_ABC) ''out'' (Some [''mov'', ''mp4'']) False)
       = Inl IsADirectoryError
   \<and> locked W_vid_tmpdir = {}
   \<and> isdir (snd (download_pair W_vid_tmpdir (fst pair_ABC) (snd pair_ABC) ''out''
                     (Some [''mov'', ''mp4'']) False)) ''out/DataSet_1/ABC''
   \<and> lookup (snd (download_pair W_vid_tmpdir (fst pair_ABC) (snd pair_ABC) ''out''
                      (Some [''mov'', ''mp4'']) False)) ''out/DataSet_1/ABC/ABC.pdf''
       = Some (File ''data'')"
  by code_simp

text \<open>
  Claim C3, as amended. A fetch to a path that exists with a size above zero returns
  \<open>True\<close> and leaves the state, the request log included, as it is. A call of
  \<open>download_pair\<close> for a pair whose folder exists (in its parent directory) and holds
  the primary document and the companion under the first extension of the priority list,
  both non-empty, returns \<open>(True, True, group, file_id)\<close> and issues no request.
\<close>

theorem fetch_idempotent:
  "(\<forall>w url p n. path_exists w p \<and> getsize w p = Inr n \<and> 0 < n
        \<longrightarrow> download_file w url p = (Inr True, w))
   \<and> (\<forall>w pdf_url video_url base_dir exts_opt ext rest dehy grp file_id c1 c2.
        parse_url_info pdf_url = Inr (grp, file_id)
        \<and> (case exts_opt of None \<Rightarrow> DEFAULT_VIDEO_EXTENSIONS | Some es \<Rightarrow> es) = ext # rest
        \<and> isdir w (locate_folder w base_dir grp file_id)
        \<and> path_exists w (fst (makedirs_split (locate_folder w base_dir grp file_id)))
        \<and> lookup w (path_join (locate_folder w base_dir grp file_id) (file_id @ ''.pdf''))
            = Some (File c1) \<and> c1 \<noteq> []
        \<and> lookup w (path_join (locate_folder w base_dir grp file_id) (file_id @ ''.'' @ ext))
            = Some (File c2) \<and> c2 \<noteq> []
        \<longrightarrow> fst (download_pair w pdf_url video_url base_dir exts_opt dehy)
              = Inr (True, True, grp, file_id)
          \<and> requests (snd (download_pair w pdf_url video_url base_dir exts_opt dehy)) = requests w
          \<and> nodes (snd (download_pair w pdf_url video_url base_dir exts_opt dehy)) = nodes w)"
proof (intro conjI allI impI)
  fix w url p n
  assume "path_exists w p \<and> getsize w p = Inr n \<and> 0 < n"
  then show "download_file w url p = (Inr True, w)"
    by (simp add: download_file_def Let_def)
next
  fix w pdf_url video_url base_dir exts_opt ext rest dehy grp file_id c1 c2
  let ?folder = "locate_folder w base_dir grp file_id"
  let ?d = "download_pair w pdf_url video_url base_dir exts_opt dehy"
  assume h: "parse_url_info pdf_url = Inr (grp, file_id)
        \<and> (case exts_opt of None \<Rightarrow> DEFAULT_VIDEO_EXTENSIONS | Some es \<Rightarrow> es) = ext # rest
        \<and> isdir w ?folder
        \<and> path_exists w (fst (makedirs_split ?folder))
        \<and> lookup w (path_join ?folder (file_id @ ''.pdf'')) = Some (File c1) \<and> c1 \<noteq> []
        \<and> lookup w (path_join ?folder (file_id @ ''.'' @ ext)) = Some (File c2) \<and> c2 \<noteq> []"
  then have mk: "makedirs w ?folder = (Inr (), w)"
    by (intro makedirs_existing) auto
  from h have pdf: "download_file w pdf_url (path_join ?folder (file_id @ ''.pdf'')) = (Inr True, w)"
    by (intro download_file_present) auto
  from h have vid: "\<And>u. download_file w u (path_join ?folder (file_id @ ''.'' @ ext)) = (Inr True, w)"
    by (intro download_file_present) auto
  have te: "try_extensions w ?folder file_id video_url (ext # rest) (ext # rest)
              = (Inr (True, Some (path_join ?folder (file_id @ ''.'' @ ext))), w)"
    using vid[of video_url] by (simp add: Let_def)
  from h mk pdf te
  have "fst ?d = Inr (True, True, grp, file_id) \<and> requests (snd ?d) = requests w
        \<and> nodes (snd ?d) = nodes w"
    by (auto simp: download_pair_def Let_def)
  then show "fst ?d = Inr (True, True, grp, file_id)" "requests (snd ?d) = requests w"
    "nodes (snd ?d) = nodes w" by simp_all
qed

text \<open>
  The renamed folder of \<open>DataSet_1/ABC\<close> with \<open>ABC.pdf\<close> and \<open>ABC.mov\<close>.
\<close>

theorem fetch_idempotent_witness:
  "path_exists W_complete ''out/DataSet_1/ABC - Deposition notes/ABC.pdf''
   \<and> getsize W_complete ''out/DataSet_1/ABC - Deposition notes/ABC.pdf'' = Inr 4
   \<and> download_file W_complete ''https://h/DataSet 1/ABC.pdf''
        ''out/DataSet_1/ABC - Deposition notes/ABC.pdf'' = (Inr True, W_complete)
   \<and> locate_folder W_complete ''out'' ''DataSet_1'' ''ABC'' = ''out/DataSet_1/ABC - Deposition notes''
   \<and> fst (download_pair W_complete (fst pair_ABC) (snd pair_ABC) ''out'' (Some [''mov'', ''mp4'']) False)
       = Inr (True, True, ''DataSet_1'', ''ABC'')
   \<and> requests (snd (download_pair W_complete (fst pair_ABC) (snd pair_ABC) ''out''
                       (Some [''mov'', ''mp4'']) False)) = requests W_complete"
proof -
  let ?f = "''out/DataSet_1/ABC - Deposition notes''"
  have a: "path_exists W_complete ''out/DataSet_1/ABC - Deposition notes/ABC.pdf''
           \<and> getsize W_complete ''out/DataSet_1/ABC - Deposition notes/ABC.pdf'' = Inr 4 \<and> (0::nat) < 4"
    by code_simp
  have lf: "locate_folder W_complete ''out'' ''DataSet_1'' ''ABC'' = ?f" by code_simp
  have b: "parse_url_info (fst pair_ABC) = Inr (''DataSet_1'', ''ABC'')
        \<and> (case Some [''mov'', ''mp4''] of None \<Rightarrow> DEFAULT_VIDEO_EXTENSIONS | Some es \<Rightarrow> es)
            = ''mov'' # [''mp4'']
        \<and> isdir W_complete (locate_folder W_complete ''out'' ''DataSet_1'' ''ABC'')
        \<and> path_exists W_complete (fst (makedirs_split (locate_folder W_complete ''out'' ''DataSet_1'' ''ABC'')))
        \<and> lookup W_complete (path_join (locate_folder W_complete ''out'' ''DataSet_1'' ''ABC'') (''ABC'' @ ''.pdf''))
            = Some (File ''%PDF'') \<and> ''%PDF'' \<noteq> []
        \<and> lookup W_complete (path_join (locate_folder W_complete ''out'' ''DataSet_1'' ''ABC'') (''ABC'' @ ''.'' @ ''mov''))
            = Some (File ''moov'') \<and> ''moov'' \<noteq> []"
    by code_simp
  from fetch_idempotent [THEN conjunct1, rule_format, OF a]
       fetch_idempotent [THEN conjunct2, rule_format, OF b, of "snd pair_ABC" False] a lf
  show ?thesis by simp
qed

text \<open>
  The claim as stated fails when the companion was found under a later extension: the
  folder made by a first call with the list \<open>mov, mp4\<close> holds \<open>ABC.pdf\<close> and
  \<open>ABC.mp4\<close>, and the second call requests \<open>ABC.mov\<close> again before it finds
  \<open>ABC.mp4\<close> in place.
\<close>

theorem download_pair_probes_again:
  "fst (download_pair W_mp4 (fst pair_ABC) (snd pair_ABC) ''out'' (Some [''mov'', ''mp4'']) False)
     = Inr (True, True, ''DataSet_1'', ''ABC'')
   \<and> lookup W_mp4_done ''out/DataSet_1/ABC/ABC.pdf'' = Some (File ''data'')
   \<and> lookup W_mp4_done ''out/DataSet_1/ABC/ABC.mp4'' = Some (File ''data'')
   \<and> fst (download_pair W_mp4_done (fst pair_ABC) (snd pair_ABC) ''out'' (Some [''mov'', ''mp4'']) False)
       = Inr (True, True, ''DataSet_1'', ''ABC'')
   \<and> requests (snd (download_pair W_mp4_done (fst pair_ABC) (snd pair_ABC) ''out''
                       (Some [''mov'', ''mp4'']) False))
       = requests W_mp4_done @ [''https://h/DataSet%201/ABC.mov'']"
  by code_simp

text \<open>
  Claim C4. The loop of \<open>download_pair\<close> departs from the probing of the specification
  in two cases. It takes an extension for the first one when it equals
  \<open>video_extensions[0]\<close>, whatever its position: with the list \<open>mov, mp4, mov\<close> the third
  probe fetches the companion URL \<open>item.dat\<close> as it is once more, not \<open>item.mov\<close>. And
  it cuts the companion URL at its last dot, wherever that is: for the companion URL
  \<open>https://h.example/v/clip\<close>, which has no extension, the second probe fetches
  \<open>https://h.mp4\<close>, not \<open>https://h.example/v/clip.mp4\<close>.
\<close>

theorem companion_probing_departs_from_order:
  "requests (snd (download_pair W_empty ''https://x/y/item.pdf'' ''https://x/y/item.dat'' ''out''
                    (Some [''mov'', ''mp4'', ''mov'']) False))
     = [''https://x/y/item.pdf'', ''https://x/y/item.dat'', ''https://x/y/item.mp4'',
        ''https://x/y/item.dat'']
   \<and> requests (snd (try_extensions W_empty ''out/x/item'' ''item'' ''https://x/y/item.dat''
                    [''mov'', ''mp4'', ''mov''] [''mov'', ''mp4'', ''mov'']))
     = [''https://x/y/item.dat'', ''https://x/y/item.mp4'', ''https://x/y/item.dat'']
   \<and> requests (snd (probe_in_order W_empty ''out/x/item'' ''item'' ''https://x/y/item.dat''
                    [''mov'', ''mp4'', ''mov'']))
     = [''https://x/y/item.dat'', ''https://x/y/item.mp4'', ''https://x/y/item.mov'']
   \<and> requests (snd (download_pair W_empty ''https://h.example/v/clip.pdf'' ''https://h.example/v/clip''
                    ''out'' (Some [''mov'', ''mp4'']) False))
     = [''https://h.example/v/clip.pdf'', ''https://h.example/v/clip'', ''https://h.mp4'']
   \<and> requests (snd (try_extensions W_empty ''out/h_example/clip'' ''clip'' ''https://h.example/v/clip''
                    [''mov'', ''mp4''] [''mov'', ''mp4'']))
     = [''https://h.example/v/clip'', ''https://h.mp4'']
   \<and> requests (snd (probe_in_order W_empty ''out/h_example/clip'' ''clip'' ''https://h.example/v/clip''
                    [''mov'', ''mp4'']))
     = [''https://h.example/v/clip'', ''https://h.example/v/clip.mp4'']"
  by code_simp

text \<open>
  Claim C10. When \<open>download_pair\<close> reports a companion, the priority list has an
  extension \<open>ext\<close> such that the probes of all extensions before it returned \<open>False\<close>,
  the fetch that returned \<open>True\<close> is the one of the URL probed for \<open>ext\<close> (the companion
  URL itself when \<open>ext\<close> is the first extension of the list) to the path
  \<open>folder/file_id.ext\<close>, and this path exists afterwards with a size above zero; a
  file there was in place before this fetch or holds the complete body of an answer to
  the request for that URL.
\<close>

theorem companion_named_by_list_extension:
  assumes "download_pair w pdf_url video_url base_dir exts_opt dehy
             = (Inr (pdf_ok, True, grp, file_id), w')"
      and "exts = (case exts_opt of None \<Rightarrow> DEFAULT_VIDEO_EXTENSIONS | Some es \<Rightarrow> es)"
      and "folder = locate_folder w base_dir grp file_id"
  shows "\<exists>pre ext post w1 w2 w3 w4.
           exts = pre @ ext # post
         \<and> makedirs w folder = (Inr (), w1)
         \<and> download_file w1 pdf_url (path_join folder (file_id @ ''.pdf'')) = (Inr pdf_ok, w2)
         \<and> try_extensions w2 folder file_id video_url exts pre = (Inr (False, None), w3)
         \<and> download_file w3 (if ext = hd exts then video_url
                              else base_video_url video_url @ ''.'' @ ext)
              (path_join folder (file_id @ ''.'' @ ext)) = (Inr True, w4)
         \<and> nodes w' = nodes w4
         \<and> path_exists w' (path_join folder (file_id @ ''.'' @ ext))
         \<and> (\<exists>n>0. getsize w' (path_join folder (file_id @ ''.'' @ ext)) = Inr n)
         \<and> final_ok w3 (replace_all '' '' ''%20''
                           (if ext = hd exts then video_url
                            else base_video_url video_url @ ''.'' @ ext))
              (path_join folder (file_id @ ''.'' @ ext)) (nodes w')"
proof -
  from download_pair_returns[OF assms(1)] obtain w1 w2 w4 actual where
    mk: "makedirs w folder = (Inr (), w1)"
    and df: "download_file w1 pdf_url (path_join folder (file_id @ ''.pdf'')) = (Inr pdf_ok, w2)"
    and te: "try_extensions w2 folder file_id video_url exts exts = (Inr (True, actual), w4)"
    and n: "nodes w' = nodes w4" "dir_size w' = dir_size w4"
    unfolding assms(2,3) by auto
  from try_extensions_success[OF te] obtain pre ext post w3 where
    e: "exts = pre @ ext # post"
    and fails: "try_extensions w2 folder file_id video_url exts pre = (Inr (False, None), w3)"
    and vf: "download_file w3 (if ext = hd exts then video_url
                               else base_video_url video_url @ ''.'' @ ext)
               (path_join folder (file_id @ ''.'' @ ext)) = (Inr True, w4)"
    by blast
  let ?url = "if ext = hd exts then video_url else base_video_url video_url @ ''.'' @ ext"
  let ?path = "path_join folder (file_id @ ''.'' @ ext)"
  from download_file_success[OF vf] obtain n0 where
    s: "path_exists w4 ?path" "0 < n0" "getsize w4 ?path = Inr n0" by blast
  from s n have s': "path_exists w' ?path" "\<exists>n>0. getsize w' ?path = Inr n"
    by (auto simp: path_exists_def lookup_def getsize_def split: option.splits node.splits)
  have init: "final_ok w3 (replace_all '' '' ''%20'' ?url) ?path (nodes w3)"
    by (auto simp: final_ok_def split: option.splits node.splits)
  from keeps_download_file[OF vf] init
  have "final_ok w3 (replace_all '' '' ''%20'' ?url) ?path (nodes w4)"
    unfolding keeps_def by blast
  with n have f: "final_ok w3 (replace_all '' '' ''%20'' ?url) ?path (nodes w')" by simp
  from e mk df fails vf n(1) s' f show ?thesis by blast
qed

text \<open>
  With the companion URL \<open>item.mp4\<close> and the list \<open>mov\<close>, the body served for
  \<open>item.mp4\<close> is stored as \<open>item.mov\<close>: the extension of the file is the one of the
  list, not the one of the URL. With the companion URL \<open>item.mov\<close> and the list
  \<open>mov, mp4, jpg\<close>, the companion is the body served for \<open>item.mp4\<close>, stored as
  \<open>item.mp4\<close>.
\<close>

theorem companion_named_by_list_extension_witness:
  "fst (download_pair W_item ''https://x/y/item.pdf'' ''https://x/y/item.mp4'' ''out'' (Some [''mov'']) False)
     = Inr (True, True, ''x'', ''item'')
   \<and> locate_folder W_item ''out'' ''x'' ''item'' = ''out/x/item''
   \<and> (\<exists>ext \<in> set [''mov''].
         path_exists (snd (download_pair W_item ''https://x/y/item.pdf'' ''https://x/y/item.mp4''
                             ''out'' (Some [''mov'']) False))
           (path_join ''out/x/item'' (''item'' @ ''.'' @ ext)))
   \<and> requests (snd (download_pair W_item ''https://x/y/item.pdf'' ''https://x/y/item.mp4'' ''out''
                       (Some [''mov'']) False))
       = [''https://x/y/item.pdf'', ''https://x/y/item.mp4'']
   \<and> map fst (nodes (snd (download_pair W_item ''https://x/y/item.pdf'' ''https://x/y/item.mp4''
                              ''out'' (Some [''mov'']) False)))
       = [''out'', ''out/x'', ''out/x/item'', ''out/x/item/item.pdf'', ''out/x/item/item.mov'']
   \<and> lookup (snd (download_pair W_item ''https://x/y/item.pdf'' ''https://x/y/item.mp4''
                     ''out'' (Some [''mov'']) False)) ''out/x/item/item.mov'' = Some (File ''mp4 body'')
   \<and> respond W_item 1 ''https://x/y/item.mp4'' = Resp 200 [''mp4 body''] False
   \<and> fst (download_pair W_item ''https://x/y/item.pdf'' ''https://x/y/item.mov'' ''out''
            (Some [''mov'', ''mp4'', ''jpg'']) False) = Inr (True, True, ''x'', ''item'')
   \<and> lookup (snd (download_pair W_item ''https://x/y/item.pdf'' ''https://x/y/item.mov''
                     ''out'' (Some [''mov'', ''mp4'', ''jpg'']) False)) ''out/x/item/item.mp4''
       = Some (File ''mp4 body'')"
proof -
  let ?d = "download_pair W_item ''https://x/y/item.pdf'' ''https://x/y/item.mp4'' ''out'' (Some [''mov'']) False"
  have h0: "fst ?d = Inr (True, True, ''x'', ''item'')" by code_simp
  then have h: "?d = (Inr (True, True, ''x'', ''item''), snd ?d)" by (metis prod.collapse)
  have lf: "''out/x/item'' = locate_folder W_item ''out'' ''x'' ''item''" by code_simp
  have ex: "[''mov''] = (case Some [''mov''] of None \<Rightarrow> DEFAULT_VIDEO_EXTENSIONS | Some es \<Rightarrow> es)"
    by simp
  from companion_named_by_list_extension[OF h ex lf] obtain pre ext post where
    "[''mov''] = pre @ ext # post"
    "path_exists (snd ?d) (path_join ''out/x/item'' (''item'' @ ''.'' @ ext))"
    by blast
  then have a: "\<exists>ext \<in> set [''mov''].
         path_exists (snd ?d) (path_join ''out/x/item'' (''item'' @ ''.'' @ ext))"
    by (metis in_set_conv_decomp)
  have b: "requests (snd ?d) = [''https://x/y/item.pdf'', ''https://x/y/item.mp4'']" by code_simp
  have c: "map fst (nodes (snd ?d))
       = [''out'', ''out/x'', ''out/x/item'', ''out/x/item/item.pdf'', ''out/x/item/item.mov'']"
    by code_simp
  have d: "lookup (snd ?d) ''out/x/item/item.mov'' = Some (File ''mp4 body'')" by code_simp
  have e: "respond W_item 1 ''https://x/y/item.mp4'' = Resp 200 [''mp4 body''] False" by code_simp
  have f: "fst (download_pair W_item ''https://x/y/item.pdf'' ''https://x/y/item.mov'' ''out''
            (Some [''mov'', ''mp4'', ''jpg'']) False) = Inr (True, True, ''x'', ''item'')" by code_simp
  have g: "lookup (snd (download_pair W_item ''https://x/y/item.pdf'' ''https://x/y/item.mov''
                     ''out'' (Some [''mov'', ''mp4'', ''jpg'']) False)) ''out/x/item/item.mp4''
       = Some (File ''mp4 body'')" by code_simp
  from h0 lf[symmetric] a b c d e f g show ?thesis by simp
qed

end
